theory Spec2Isabelle
  imports Main "HOL-Library.AList" "HOL-Library.Sublist"
begin

section \<open>Data model of \<open>moex_collector.py\<close>\<close>

text \<open>
  JSON scalars as they occur in the rows of an API block. Floats and booleans are left out;
  no branch of the collector inspects a value other than the three cursor entries.
\<close>

datatype json = JNull | JInt int | JStr string

type_synonym row = "json list"

text \<open>
  One block of a response, \<open>{"columns": [...], "data": [[...], ...]}\<close>. The column list is
  read with \<open>.get('columns', [])\<close> only, so an absent key is the empty list. The key
  \<open>data\<close> may be absent (\<open>None\<close>): the code reads it with \<open>.get('data')\<close> and a truth
  test in most places, where absent and empty behave alike (\<open>rows\<close>), and by subscript in
  the cursor blocks, where an absent key raises \<open>KeyError\<close>.
\<close>

record block =
  columns :: "string list"
  data_entry :: "row list option"

definition rows :: "block \<Rightarrow> row list" where
  "rows blk = (case data_entry blk of None \<Rightarrow> [] | Some rs \<Rightarrow> rs)"

text \<open>
  A decoded response body is a dictionary from block names (\<open>securities\<close>,
  \<open>securities.cursor\<close>, \<open>history\<close>, ...) to blocks; \<open>k in data\<close> is
  \<open>map_of data k \<noteq> None\<close>. \<open>fetch_moex_data\<close> returns \<open>None\<close> on a timeout or any other
  request error.
\<close>

type_synonym response = "(string \<times> block) list"

datatype exc = NoOptionError | KeyError | ValueError | TypeError | IndexError | DatabaseError

text \<open>
  Result of a computation that may raise or, in the model only, run out of loop fuel.
\<close>

datatype 'a res = Ok 'a | Raise exc | Timeout

datatype table_key = Bonds | Quotas | Coupons | Amortizations | Offers

datatype mode = Clear | Update | Overwrite

text \<open>
  The parsed command line. Dates are day ordinals; \<open>get_date_range\<close> has validated them
  before \<open>main\<close> uses them.
\<close>

record args =
  table :: table_key
  isin :: "string option"
  mode :: mode
  start_date :: int
  end_date :: int

text \<open>
  The loaded configuration: \<open>[API] base_url\<close> and \<open>default_limit\<close>, the options of
  \<open>[TABLES]\<close>, and the option names of each \<open>[TABLE_SCHEMA:key]\<close> section in file order
  (\<open>None\<close> when the section is missing). \<open>load_config\<close> checks sections only, never options.
\<close>

record config =
  base_url :: "string option"
  default_limit :: "int option"
  tables :: "table_key \<Rightarrow> string option"
  table_schema :: "table_key \<Rightarrow> string list option"

subsection \<open>Strings\<close>

text \<open>
  \<open>str.upper\<close>, \<open>str.strip\<close> and \<open>str.split(',')\<close> on ASCII text. Python's case mapping
  of characters beyond ASCII is outside the model.
\<close>

definition upper_char :: "char \<Rightarrow> char" where
  "upper_char c =
     (case map_of (zip ''abcdefghijklmnopqrstuvwxyz'' ''ABCDEFGHIJKLMNOPQRSTUVWXYZ'') c of
        Some u \<Rightarrow> u
      | None \<Rightarrow> c)"

definition upper :: "string \<Rightarrow> string" where
  "upper s = map upper_char s"

definition is_space :: "char \<Rightarrow> bool" where
  "is_space c = (let n = (of_char c :: nat) in (9 \<le> n \<and> n \<le> 13) \<or> (28 \<le> n \<and> n \<le> 32))"

definition strip :: "string \<Rightarrow> string" where
  "strip s = rev (dropWhile is_space (rev (dropWhile is_space s)))"

fun split_on :: "char \<Rightarrow> string \<Rightarrow> string list" where
  "split_on c [] = [[]]"
| "split_on c (x # xs) =
     (if x = c then [] # split_on c xs
      else (case split_on c xs of [] \<Rightarrow> [[x]] | y # ys \<Rightarrow> (x # y) # ys))"

text \<open>Truth value of \<open>args.isin\<close>: \<open>None\<close> and the empty string are false.\<close>

fun truthy :: "string option \<Rightarrow> bool" where
  "truthy None = False"
| "truthy (Some s) = (s \<noteq> [])"

section \<open>Column mapping\<close>

text \<open>
  \<open>get_column_mapping\<close>: a dictionary built by \<open>mapping[name.upper()] = name\<close> over the
  options of the schema section; a later option overwrites an earlier one with the same
  upper-cased name. A missing section gives the empty dictionary.
\<close>

definition get_column_mapping :: "config \<Rightarrow> table_key \<Rightarrow> (string \<times> string) list" where
  "get_column_mapping cfg table_key =
     (case table_schema cfg table_key of
        None \<Rightarrow> []
      | Some options \<Rightarrow>
          fold (\<lambda>db_column_name mapping. AList.update (upper db_column_name) db_column_name mapping)
            options [])"

text \<open>
  The loop of \<open>insert_data_generic\<close> over \<open>enumerate(api_columns)\<close>: a page column is kept
  when \<open>api_col_name in column_mapping\<close>, which compares the page's name as it is.
\<close>

fun resolve_loop ::
  "(string \<times> string) list \<Rightarrow> (nat \<times> string) list \<Rightarrow> string list \<times> nat list \<Rightarrow> string list \<times> nat list"
where
  "resolve_loop column_mapping [] acc = acc"
| "resolve_loop column_mapping ((i, api_col_name) # rest) (db_columns_in_order, api_indices_in_order) =
     (case map_of column_mapping api_col_name of
        Some db_col_name \<Rightarrow>
          resolve_loop column_mapping rest
            (db_columns_in_order @ [db_col_name], api_indices_in_order @ [i])
      | None \<Rightarrow> resolve_loop column_mapping rest (db_columns_in_order, api_indices_in_order))"

definition resolve_columns :: "(string \<times> string) list \<Rightarrow> string list \<Rightarrow> string list \<times> nat list" where
  "resolve_columns column_mapping api_columns =
     resolve_loop column_mapping (enumerate 0 api_columns) ([], [])"

text \<open>
  The column resolution as the specification words it: a page column is selected when its
  name matches a mapping entry case-insensitively. Used only to compare with
  \<open>resolve_columns\<close>.
\<close>

definition resolve_columns_spec :: "(string \<times> string) list \<Rightarrow> string list \<Rightarrow> string list \<times> nat list" where
  "resolve_columns_spec column_mapping api_columns =
     (let hits = filter (\<lambda>(i, c). map_of (map (\<lambda>(k, v). (upper k, v)) column_mapping) (upper c) \<noteq> None)
                   (enumerate 0 api_columns)
      in (map (\<lambda>(i, c). the (map_of (map (\<lambda>(k, v). (upper k, v)) column_mapping) (upper c))) hits,
          map fst hits))"

section \<open>Building a destination row\<close>

text \<open>Python list indexing with a non-negative index: out of range raises \<open>IndexError\<close>.\<close>

definition py_index :: "'a list \<Rightarrow> nat \<Rightarrow> exc + 'a" where
  "py_index xs i = (if i < length xs then Inr (xs ! i) else Inl IndexError)"

text \<open>
  \<open>db_row = [row[i] if i < len(row) else None for i in api_indices_in_order]\<close>, element by
  element, stopping at the first exception.
\<close>

fun build_db_row :: "nat list \<Rightarrow> row \<Rightarrow> exc + row" where
  "build_db_row [] row = Inr []"
| "build_db_row (i # api_indices) row =
     (case (if i < length row then py_index row i else Inr JNull) of
        Inl e \<Rightarrow> Inl e
      | Inr v \<Rightarrow> (case build_db_row api_indices row of Inl e \<Rightarrow> Inl e | Inr vs \<Rightarrow> Inr (v # vs)))"

section \<open>The world outside the process\<close>

text \<open>
  The six URL shapes the collector requests, and a request with its query parameters as the
  \<open>params\<close> dictionary holds them.
\<close>

datatype endpoint =
    AllSecurities
  | SecurityByIsin string
  | HistoryByIsin string
  | HistoryAll
  | BondizationByIsin string
  | BondizationAll

datatype request = Request endpoint "(string \<times> int) list"

text \<open>
  The market-data server: its answer may depend on the request and on how many requests
  came before, so successive answers to one URL may differ. \<open>None\<close> is a failed request.
\<close>

type_synonym api = "nat \<Rightarrow> request \<Rightarrow> response option"

text \<open>A destination row: the quoted column list of the INSERT and its values.\<close>

type_synonym dbrow = "string list \<times> row"

datatype stmt = Truncate | Insert dbrow

datatype conn_state = NotOpened | Opened | Closed

text \<open>
  Everything a run can change: the HTTP requests sent, the SQL statements executed on the
  destination table, the table as committed and as the open transaction sees it, the
  connection, and the per-page \<open>Rows affected\<close> counts printed after a commit.
\<close>

record world =
  reqs :: "request list"
  stmts :: "stmt list"
  committed :: "dbrow list"
  pending :: "dbrow list"
  conn :: conn_state
  affected :: "nat list"

text \<open>
  Modelled from the spec: the storage layer, that is the database server behind
  \<open>psycopg2\<close>, is not in the repository. The specification (4.3, 7) says of it that
  duplicate rows, by the destination table's unique key enforced at the storage layer, are
  silently skipped, never counted and never an error, and that a storage error may hit
  any statement. Accordingly a storage is given by three parameters. \<open>rejects n tbl r\<close>
  says whether the statement number \<open>n\<close> of the run, inserting \<open>r\<close> into the table
  \<open>tbl\<close> as the transaction sees it, is refused with a \<open>psycopg2.Error\<close>; it may depend
  on the moment and on the table, so an error may be transient. \<open>ukey r\<close> is the unique
  key of \<open>r\<close>, \<open>None\<close> for a row that has none: the table has no unique constraint, or
  a key column of the row is NULL. \<open>truncate_fails n\<close> says whether a TRUNCATE issued as
  statement number \<open>n\<close> is refused. The connection is not lost during a run: a COMMIT
  after accepted statements and a ROLLBACK after a refused one succeed.
\<close>

record storage =
  rejects :: "nat \<Rightarrow> dbrow list \<Rightarrow> dbrow \<Rightarrow> bool"
  ukey :: "dbrow \<Rightarrow> row option"
  truncate_fails :: "nat \<Rightarrow> bool"

record env =
  api :: api
  cfg :: config
  storage :: storage
  db_available :: bool

text \<open>
  Modelled from the spec: a row duplicates an existing row when it has a unique key and a
  row of the table has the same key.
\<close>

definition conflicts :: "storage \<Rightarrow> dbrow \<Rightarrow> dbrow list \<Rightarrow> bool" where
  "conflicts S r tbl =
     (case ukey S r of None \<Rightarrow> False | Some k \<Rightarrow> Some k \<in> set (map (ukey S) tbl))"

definition commit :: "world \<Rightarrow> world" where
  "commit w = w\<lparr>committed := pending w\<rparr>"

definition rollback :: "world \<Rightarrow> world" where
  "rollback w = w\<lparr>pending := committed w\<rparr>"

text \<open>
  Modelled from the spec: what the storage layer does with
  \<open>cur.execute(insert_query, db_row)\<close>, the statement being
  \<open>INSERT ... ON CONFLICT DO NOTHING\<close>. The result is \<open>cur.rowcount\<close> or the error raised:
  a refused statement raises, a duplicate by the unique key is skipped with a row count of
  0, any other row is added to the table of the open transaction with a row count of 1.
\<close>

definition execute_insert :: "storage \<Rightarrow> dbrow \<Rightarrow> world \<Rightarrow> (exc + nat) \<times> world" where
  "execute_insert S r w =
     (let w1 = w\<lparr>stmts := stmts w @ [Insert r]\<rparr> in
      if rejects S (length (stmts w)) (pending w) r then (Inl DatabaseError, w1)
      else if conflicts S r (pending w) then (Inr 0, w1)
      else (Inr 1, w1\<lparr>pending := pending w @ [r]\<rparr>))"

section \<open>Database interaction\<close>

text \<open>
  \<open>get_db_connection\<close>: \<open>None\<close> when connecting fails; a new session sees the committed
  table.
\<close>

definition get_db_connection :: "env \<Rightarrow> world \<Rightarrow> world option" where
  "get_db_connection E w =
     (if db_available E then Some (w\<lparr>conn := Opened, pending := committed w\<rparr>) else None)"

definition conn_close :: "world \<Rightarrow> world" where
  "conn_close w = w\<lparr>conn := Closed\<rparr>"

text \<open>\<open>clear_table\<close>: TRUNCATE and commit, or roll back when the statement is rejected.\<close>

definition clear_table :: "storage \<Rightarrow> world \<Rightarrow> world" where
  "clear_table S w =
     (let w1 = w\<lparr>stmts := stmts w @ [Truncate]\<rparr> in
      if truncate_fails S (length (stmts w)) then rollback w1 else commit (w1\<lparr>pending := []\<rparr>))"

text \<open>
  The \<open>for row in rows\<close> loop inside the \<open>try\<close> of \<open>insert_data_generic\<close>, up to the first
  exception.
\<close>

fun insert_rows ::
  "storage \<Rightarrow> string list \<Rightarrow> nat list \<Rightarrow> row list \<Rightarrow> nat \<Rightarrow> world \<Rightarrow> (exc + nat) \<times> world"
where
  "insert_rows S db_columns api_indices [] inserted_count w = (Inr inserted_count, w)"
| "insert_rows S db_columns api_indices (row # rest) inserted_count w =
     (case build_db_row api_indices row of
        Inl e \<Rightarrow> (Inl e, w)
      | Inr db_row \<Rightarrow>
          (case execute_insert S (db_columns, db_row) w of
             (Inl e, w1) \<Rightarrow> (Inl e, w1)
           | (Inr rowcount, w1) \<Rightarrow>
               insert_rows S db_columns api_indices rest (inserted_count + rowcount) w1))"

text \<open>
  \<open>insert_data_generic\<close>. The four early returns leave the database alone; otherwise the
  rows are executed in one transaction, committed after the last row, and rolled back in
  both \<open>except\<close> clauses. No exception leaves the function.
\<close>

definition insert_data_generic :: "env \<Rightarrow> table_key \<Rightarrow> block \<Rightarrow> world \<Rightarrow> world" where
  "insert_data_generic E table_key data w =
     (if rows data = [] then w
      else if columns data = [] then w
      else let column_mapping = get_column_mapping (cfg E) table_key in
        if column_mapping = [] then w
        else (case resolve_columns column_mapping (columns data) of
          (db_columns_in_order, api_indices_in_order) \<Rightarrow>
            if db_columns_in_order = [] then w
            else (case insert_rows (storage E) db_columns_in_order api_indices_in_order
                         (rows data) 0 w of
                    (Inr inserted_count, w1) \<Rightarrow>
                      (commit w1)\<lparr>affected := affected w1 @ [inserted_count]\<rparr>
                  | (Inl e, w1) \<Rightarrow> rollback w1)))"

section \<open>API interaction\<close>

definition fetch_moex_data :: "api \<Rightarrow> request \<Rightarrow> world \<Rightarrow> response option \<times> world" where
  "fetch_moex_data srv rq w = (srv (length (reqs w)) rq, w\<lparr>reqs := reqs w @ [rq]\<rparr>)"

text \<open>
  \<open>index, total, pagesize = cursor_data[0]\<close> followed by the arithmetic on \<open>pagesize\<close> and
  \<open>total\<close> (\<open>total_rows\<close> here, \<open>total\<close> being a constant of HOL): unpacking a row that has
  not three entries raises \<open>ValueError\<close>, adding or
  comparing a string or null raises \<open>TypeError\<close>.
\<close>

fun cursor_triple :: "row \<Rightarrow> exc + (json \<times> int \<times> int)" where
  "cursor_triple [index, JInt total_rows, JInt pagesize] = Inr (index, total_rows, pagesize)"
| "cursor_triple [index, total_rows, pagesize] = Inl TypeError"
| "cursor_triple cursor_row = Inl ValueError"

text \<open>
  The \<open>while True\<close> loop of \<open>get_all_securities\<close>, one unit of fuel for each iteration.
  The cursor is read by \<open>data['securities.cursor']['data']\<close>: a cursor block without the
  key \<open>data\<close> raises \<open>KeyError\<close>.
\<close>

fun get_all_securities_loop ::
  "nat \<Rightarrow> api \<Rightarrow> int \<Rightarrow> int \<Rightarrow> row list \<Rightarrow> world \<Rightarrow> row list res \<times> world"
where
  "get_all_securities_loop 0 srv limit start securities w = (Timeout, w)"
| "get_all_securities_loop (Suc fuel) srv limit start securities w =
     (case fetch_moex_data srv (Request AllSecurities [(''start'', start), (''limit'', limit)]) w of
        (None, w1) \<Rightarrow> (Ok securities, w1)
      | (Some data, w1) \<Rightarrow>
          (case map_of data ''securities'' of
             None \<Rightarrow> (Ok securities, w1)
           | Some blk \<Rightarrow>
               if rows blk = [] then (Ok securities, w1)
               else
                 (case map_of data ''securities.cursor'' of
                    None \<Rightarrow> (Ok (securities @ rows blk), w1)
                  | Some cur \<Rightarrow>
                      (case data_entry cur of
                         None \<Rightarrow> (Raise KeyError, w1)
                       | Some cursor_data \<Rightarrow>
                           (case cursor_data of
                              [] \<Rightarrow> (Ok (securities @ rows blk), w1)
                            | cursor_row # _ \<Rightarrow>
                                (case cursor_triple cursor_row of
                                   Inl e \<Rightarrow> (Raise e, w1)
                                 | Inr (index, total_rows, pagesize) \<Rightarrow>
                                     if start + pagesize \<ge> total_rows
                                     then (Ok (securities @ rows blk), w1)
                                     else get_all_securities_loop fuel srv limit (start + pagesize)
                                            (securities @ rows blk) w1))))))"

definition get_all_securities :: "nat \<Rightarrow> api \<Rightarrow> config \<Rightarrow> world \<Rightarrow> row list res \<times> world" where
  "get_all_securities fuel srv c w =
     (case base_url c of
        None \<Rightarrow> (Raise NoOptionError, w)
      | Some url \<Rightarrow>
          get_all_securities_loop fuel srv (case default_limit c of None \<Rightarrow> 100 | Some l \<Rightarrow> l)
            0 [] w)"

text \<open>
  \<open>'securities' in all_securities_data\<close>, where the right-hand side is the list of rows that
  \<open>get_all_securities\<close> returns: a string is never equal to a row, so the test is false.
\<close>

definition str_in_rows :: "string \<Rightarrow> row list \<Rightarrow> bool" where
  "str_in_rows s all_rows = False"

text \<open>
  \<open>get_isin_list\<close>. Without \<open>--isin\<close> the fetched value is a list of rows, both membership
  tests are false, \<open>columns\<close> stays \<open>None\<close> and the list of ISINs returned is empty; were a
  test true, subscripting the list with a string would raise \<open>TypeError\<close>.
\<close>

definition get_isin_list :: "nat \<Rightarrow> api \<Rightarrow> config \<Rightarrow> args \<Rightarrow> world \<Rightarrow> string list res \<times> world" where
  "get_isin_list fuel srv c a w =
     (if truthy (isin a) then
        (Ok (map (\<lambda>i. upper (strip i)) (split_on CHR '','' (the (isin a)))), w)
      else
        (case get_all_securities fuel srv c w of
           (Ok all_securities_data, w1) \<Rightarrow>
             if all_securities_data = [] then (Ok [], w1)
             else if str_in_rows ''securities'' all_securities_data then (Raise TypeError, w1)
             else if str_in_rows ''columns'' all_securities_data then (Raise TypeError, w1)
             else (Ok [], w1)
         | (Raise e, w1) \<Rightarrow> (Raise e, w1)
         | (Timeout, w1) \<Rightarrow> (Timeout, w1)))"

section \<open>Main logic\<close>

text \<open>
  The page loop that \<open>main\<close> has three times (all quotes of a date, the bondization of one
  ISIN, the global bondization): \<open>while has_more\<close>, with the request built from the current
  \<open>params['start']\<close> by \<open>mk_request\<close> and the block named \<open>data_block\<close>. The page is
  inserted when the block has rows; whether another request follows depends on the cursor
  alone, which is read by subscript after the insert, so a cursor block without the key
  \<open>data\<close> raises \<open>KeyError\<close>. A failed request ends the loop. One unit of fuel for each
  iteration.
\<close>

fun page_loop ::
  "nat \<Rightarrow> env \<Rightarrow> table_key \<Rightarrow> (int \<Rightarrow> request) \<Rightarrow> string \<Rightarrow> int \<Rightarrow> world \<Rightarrow> unit res \<times> world"
where
  "page_loop 0 E table_key mk_request data_block start w = (Timeout, w)"
| "page_loop (Suc fuel) E table_key mk_request data_block start w =
     (case fetch_moex_data (api E) (mk_request start) w of
        (None, w1) \<Rightarrow> (Ok (), w1)
      | (Some data, w1) \<Rightarrow>
          (let w2 = (case map_of data data_block of
                       None \<Rightarrow> w1
                     | Some blk \<Rightarrow>
                         if rows blk \<noteq> [] then insert_data_generic E table_key blk w1 else w1)
           in case map_of data (data_block @ ''.cursor'') of
                None \<Rightarrow> (Ok (), w2)
              | Some cur \<Rightarrow>
                  (case data_entry cur of
                     None \<Rightarrow> (Raise KeyError, w2)
                   | Some cursor_data \<Rightarrow>
                       (case cursor_data of
                          [] \<Rightarrow> (Ok (), w2)
                        | cursor_row # _ \<Rightarrow>
                            (case cursor_triple cursor_row of
                               Inl e \<Rightarrow> (Raise e, w2)
                             | Inr (index, total_rows, pagesize) \<Rightarrow>
                                 if start + pagesize < total_rows
                                 then page_loop fuel E table_key mk_request data_block
                                        (start + pagesize) w2
                                 else (Ok (), w2))))))"

text \<open>A \<open>for\<close> loop whose body may raise: the first exception ends it.\<close>

fun for_each :: "('a \<Rightarrow> world \<Rightarrow> unit res \<times> world) \<Rightarrow> 'a list \<Rightarrow> world \<Rightarrow> unit res \<times> world" where
  "for_each body [] w = (Ok (), w)"
| "for_each body (x # xs) w =
     (case body x w of
        (Ok u, w1) \<Rightarrow> for_each body xs w1
      | (Raise e, w1) \<Rightarrow> (Raise e, w1)
      | (Timeout, w1) \<Rightarrow> (Timeout, w1))"

text \<open>
  One request without pagination followed by the insert of its block: the body of the
  per-ISIN loops for \<open>bonds\<close> (block \<open>description\<close>) and \<open>quotas\<close> (block \<open>history\<close>).
\<close>

definition fetch_and_insert :: "env \<Rightarrow> table_key \<Rightarrow> request \<Rightarrow> string \<Rightarrow> world \<Rightarrow> unit res \<times> world" where
  "fetch_and_insert E table_key rq data_block w =
     (case fetch_moex_data (api E) rq w of
        (None, w1) \<Rightarrow> (Ok (), w1)
      | (Some data, w1) \<Rightarrow>
          (case map_of data data_block of
             None \<Rightarrow> (Ok (), w1)
           | Some blk \<Rightarrow>
               if rows blk \<noteq> [] then (Ok (), insert_data_generic E table_key blk w1)
               else (Ok (), w1)))"

text \<open>
  The \<open>bonds\<close> branch without \<open>--isin\<close>: \<open>securities_data\<close> is a list of rows, so the tests for
  the keys \<open>securities\<close>, \<open>columns\<close> and \<open>data\<close> are membership tests on that list and
  nothing is inserted.
\<close>

definition bonds_all :: "nat \<Rightarrow> env \<Rightarrow> world \<Rightarrow> unit res \<times> world" where
  "bonds_all fuel E w =
     (case get_all_securities fuel (api E) (cfg E) w of
        (Ok securities_data, w1) \<Rightarrow>
          if securities_data = [] then (Ok (), w1)
          else if str_in_rows ''securities'' securities_data then (Raise TypeError, w1)
          else if str_in_rows ''columns'' securities_data \<and> str_in_rows ''data'' securities_data
          then (Raise TypeError, w1)
          else (Ok (), w1)
      | (Raise e, w1) \<Rightarrow> (Raise e, w1)
      | (Timeout, w1) \<Rightarrow> (Timeout, w1))"

text \<open>The body of \<open>while date <= end_date\<close> for one date.\<close>

definition quotas_date ::
  "nat \<Rightarrow> env \<Rightarrow> args \<Rightarrow> string list \<Rightarrow> int \<Rightarrow> int \<Rightarrow> world \<Rightarrow> unit res \<times> world"
where
  "quotas_date fuel E a isin_list limit date w =
     (if truthy (isin a) then
        for_each
          (\<lambda>i. fetch_and_insert E (table a)
                 (Request (HistoryByIsin i) [(''from'', date), (''till'', date)]) ''history'')
          isin_list w
      else
        page_loop fuel E (table a)
          (\<lambda>start. Request HistoryAll [(''date'', date), (''start'', start), (''limit'', limit)])
          ''history'' 0 w)"

fun data_block_map :: "table_key \<Rightarrow> string" where
  "data_block_map Coupons = ''coupons''"
| "data_block_map Amortizations = ''amortizations''"
| "data_block_map Offers = ''offers''"
| "data_block_map Bonds = ''bonds''"
| "data_block_map Quotas = ''quotas''"

text \<open>
  The \<open>try\<close> block of \<open>main\<close>. \<open>data_block_map\<close> is read for the three bondization tables
  only.
\<close>

definition main_body ::
  "nat \<Rightarrow> env \<Rightarrow> args \<Rightarrow> string list \<Rightarrow> int \<Rightarrow> world \<Rightarrow> unit res \<times> world"
where
  "main_body fuel E a isin_list limit w =
     (if mode a = Clear then (Ok (), clear_table (storage E) w)
      else
        (let w1 = (if mode a = Overwrite then clear_table (storage E) w else w) in
         case table a of
           Bonds \<Rightarrow>
             if truthy (isin a) then
               for_each
                 (\<lambda>i. fetch_and_insert E (table a) (Request (SecurityByIsin i) []) ''description'')
                 isin_list w1
             else bonds_all fuel E w1
         | Quotas \<Rightarrow>
             for_each (quotas_date fuel E a isin_list limit) [start_date a..end_date a] w1
         | _ \<Rightarrow>
             if truthy (isin a) then
               for_each
                 (\<lambda>i. page_loop fuel E (table a)
                        (\<lambda>start. Request (BondizationByIsin i) [(''limit'', limit), (''start'', start)])
                        (data_block_map (table a)) 0)
                 isin_list w1
             else
               page_loop fuel E (table a)
                 (\<lambda>start. Request BondizationAll [(''limit'', limit), (''start'', start)])
                 (data_block_map (table a)) 0 w1))"

text \<open>
  \<open>main\<close>, from \<open>get_isin_list\<close> on (argument parsing, configuration loading and the date
  range come before and are taken as done). The three configuration reads stand between
  the connection and the \<open>try\<close>; the \<open>finally\<close> clause closes the connection however the
  \<open>try\<close> block ends. A run cut short by the fuel of the model stays as it is at that moment.
\<close>

definition main :: "nat \<Rightarrow> env \<Rightarrow> args \<Rightarrow> world \<Rightarrow> unit res \<times> world" where
  "main fuel E a w =
     (case get_isin_list fuel (api E) (cfg E) a w of
        (Raise e, w1) \<Rightarrow> (Raise e, w1)
      | (Timeout, w1) \<Rightarrow> (Timeout, w1)
      | (Ok isin_list, w1) \<Rightarrow>
          if isin_list = [] \<and> \<not> truthy (isin a) then (Ok (), w1)
          else
            (case get_db_connection E w1 of
               None \<Rightarrow> (Ok (), w1)
             | Some w2 \<Rightarrow>
                 (case base_url (cfg E) of
                    None \<Rightarrow> (Raise NoOptionError, w2)
                  | Some url \<Rightarrow>
                      (case tables (cfg E) (table a) of
                         None \<Rightarrow> (Raise NoOptionError, w2)
                       | Some table_name \<Rightarrow>
                           (case main_body fuel E a isin_list
                                   (case default_limit (cfg E) of None \<Rightarrow> 100 | Some l \<Rightarrow> l) w2 of
                              (Timeout, w3) \<Rightarrow> (Timeout, w3)
                            | (r, w3) \<Rightarrow> (r, conn_close w3))))))"


section \<open>Notions used to state the properties\<close>

text \<open>
  The destination rows that \<open>insert_data_generic\<close> builds for a page, in page order; the
  empty list when no column resolves, that is, whenever the function returns early.
\<close>

abbreviation dbrows_of :: "string list \<Rightarrow> nat list \<Rightarrow> row list \<Rightarrow> dbrow list" where
  "dbrows_of dbc idxs rws \<equiv>
     map (\<lambda>row. (dbc, map (\<lambda>i. if i < length row then row ! i else JNull) idxs)) rws"

definition page_dbrows :: "config \<Rightarrow> table_key \<Rightarrow> block \<Rightarrow> dbrow list" where
  "page_dbrows c table_key data =
     (case resolve_columns (get_column_mapping c table_key) (columns data) of
        (db_columns, api_indices) \<Rightarrow>
          if db_columns = [] then []
          else map (\<lambda>row. (db_columns, map (\<lambda>i. if i < length row then row ! i else JNull) api_indices))
                 (rows data))"

text \<open>
  The table after a list of rows went through \<open>INSERT ... ON CONFLICT DO NOTHING\<close> one by
  one, none of them rejected.
\<close>

definition apply_rows :: "storage \<Rightarrow> dbrow list \<Rightarrow> dbrow list \<Rightarrow> dbrow list" where
  "apply_rows S rs tbl = fold (\<lambda>r t. if conflicts S r t then t else t @ [r]) rs tbl"

text \<open>
  Whether the storage refuses one of the INSERT statements of a list of rows that are
  executed one after the other, the first of them as statement number \<open>n\<close> on the table
  \<open>tbl\<close>.
\<close>

fun rows_rejected :: "storage \<Rightarrow> dbrow list \<Rightarrow> nat \<Rightarrow> dbrow list \<Rightarrow> bool" where
  "rows_rejected S [] n tbl = False"
| "rows_rejected S (r # rs) n tbl =
     (rejects S n tbl r \<or> rows_rejected S rs (Suc n) (if conflicts S r tbl then tbl else tbl @ [r]))"

text \<open>Whether the insert of a page, started in the world \<open>w\<close>, meets a storage error.\<close>

definition page_rejected :: "env \<Rightarrow> table_key \<Rightarrow> block \<Rightarrow> world \<Rightarrow> bool" where
  "page_rejected E table_key data w =
     rows_rejected (storage E) (page_dbrows (cfg E) table_key data) (length (stmts w)) (pending w)"

text \<open>Loading a sequence of pages, one \<open>insert_data_generic\<close> call for each.\<close>

definition load_pages :: "env \<Rightarrow> table_key \<Rightarrow> block list \<Rightarrow> world \<Rightarrow> world" where
  "load_pages E table_key pages w = fold (insert_data_generic E table_key) pages w"

text \<open>Whether a load of a sequence of pages goes through without a storage error.\<close>

fun pages_committed :: "env \<Rightarrow> table_key \<Rightarrow> block list \<Rightarrow> world \<Rightarrow> bool" where
  "pages_committed E table_key [] w = True"
| "pages_committed E table_key (p # ps) w =
     (\<not> page_rejected E table_key p w
      \<and> pages_committed E table_key ps (insert_data_generic E table_key p w))"

text \<open>
  The cursor entry of a response for the block \<open>data_block\<close>, as the loops read it: the
  first row of the data of the block \<open>data_block.cursor\<close>; no entry (\<open>None\<close>) when the
  response has no such block or its data is empty; \<open>KeyError\<close> when the block is there
  without the key \<open>data\<close>.
\<close>

definition cursor_entry :: "string \<Rightarrow> response \<Rightarrow> exc + row option" where
  "cursor_entry data_block data =
     (case map_of data (data_block @ ''.cursor'') of
        None \<Rightarrow> Inr None
      | Some cur \<Rightarrow>
          (case data_entry cur of
             None \<Rightarrow> Inl KeyError
           | Some [] \<Rightarrow> Inr None
           | Some (cursor_row # rest) \<Rightarrow> Inr (Some cursor_row)))"

text \<open>The world after the page loop handed the block of a response to the loader.\<close>

definition insert_block :: "env \<Rightarrow> table_key \<Rightarrow> string \<Rightarrow> response \<Rightarrow> world \<Rightarrow> world" where
  "insert_block E table_key data_block data w =
     (case map_of data data_block of
        None \<Rightarrow> w
      | Some blk \<Rightarrow> if rows blk \<noteq> [] then insert_data_generic E table_key blk w else w)"

text \<open>
  What a stretch of a run may do to the database when it never truncates: it leaves no
  transaction open, keeps every committed row in place, and executes INSERT statements
  only.
\<close>

definition inserts_only :: "world \<Rightarrow> world \<Rightarrow> bool" where
  "inserts_only w w' \<longleftrightarrow>
     pending w' = committed w' \<and> prefix (committed w) (committed w')
     \<and> (\<exists>ins. stmts w' = stmts w @ map Insert ins)"


section \<open>Concrete inputs\<close>

text \<open>
  A configuration with two tracked columns, a database that accepts every row and keys a
  row by its values unless one of them is NULL (a row with a NULL in its key never
  duplicates another), a page with an untracked column and a short second row, and a fresh
  world.
\<close>

definition example_cfg :: config where
  "example_cfg =
     \<lparr>base_url = Some ''https://iss.moex.com/iss'', default_limit = Some 100,
      tables = (\<lambda>k. Some ''moex_table''),
      table_schema = (\<lambda>k. Some [''secid'', ''isin''])\<rparr>"

definition example_storage :: storage where
  "example_storage =
     \<lparr>rejects = (\<lambda>n tbl r. False),
      ukey = (\<lambda>r. if JNull \<in> set (snd r) then None else Some (snd r)),
      truncate_fails = (\<lambda>n. False)\<rparr>"

text \<open>An environment whose server answers no request.\<close>

definition example_env :: env where
  "example_env =
     \<lparr>api = (\<lambda>n rq. None), cfg = example_cfg, storage = example_storage, db_available = True\<rparr>"

definition example_page :: block where
  "example_page =
     \<lparr>columns = [''SECID'', ''ISIN'', ''EXTRA''],
      data_entry =
        Some [[JStr ''SU26207RMFS9'', JStr ''RU000A0JS3W6'', JInt 1], [JStr ''SU26212RMFS9'']]\<rparr>"

text \<open>A page whose two rows fill both tracked columns.\<close>

definition full_page :: block where
  "full_page =
     \<lparr>columns = [''SECID'', ''ISIN''],
      data_entry =
        Some [[JStr ''SU26207RMFS9'', JStr ''RU000A0JS3W6''],
              [JStr ''SU26212RMFS9'', JStr ''RU000A0JTK38'']]\<rparr>"

text \<open>
  A server that answers the securities list with one page and no cursor, and a lookup by
  ISIN with \<open>example_page\<close> as the description block.
\<close>

definition example_api :: api where
  "example_api n rq =
     (case rq of
        Request AllSecurities params \<Rightarrow>
          Some [(''securities'',
                 \<lparr>columns = [''SECID'', ''ISIN''],
                  data_entry = Some [[JStr ''SU26207RMFS9'', JStr ''RU000A0JS3W6'']]\<rparr>)]
      | Request (SecurityByIsin i) params \<Rightarrow> Some [(''description'', example_page)]
      | Request ep params \<Rightarrow> None)"

definition example_world :: world where
  "example_world =
     \<lparr>reqs = [], stmts = [], committed = [], pending = [], conn = NotOpened, affected = []\<rparr>"

text \<open>
  A server that answers its \<open>n\<close>-th request, whatever it asks for, with one row in the
  block \<open>data_block\<close> and the cursor \<open>(100 n, 250, 100)\<close>: the cursor sequence
  \<open>(0,250,100)\<close>, \<open>(100,250,100)\<close>, \<open>(200,250,100)\<close>, \<open>(300,250,100)\<close>, ...
\<close>

definition cursor_seq_api :: "string \<Rightarrow> api" where
  "cursor_seq_api data_block n rq =
     Some [(data_block,
            \<lparr>columns = [''SECID''], data_entry = Some [[JStr ''SU26207RMFS9'', JInt (int n)]]\<rparr>),
           (data_block @ ''.cursor'',
            \<lparr>columns = [''INDEX'', ''TOTAL'', ''PAGESIZE''],
             data_entry = Some [[JInt (100 * int n), JInt 250, JInt 100]]\<rparr>)]"

text \<open>
  A response whose \<open>securities\<close> block has no rows while its cursor announces 250 rows in
  pages of 100.
\<close>

definition empty_page_response :: response where
  "empty_page_response =
     [(''securities'', \<lparr>columns = [''SECID''], data_entry = Some []\<rparr>),
      (''securities.cursor'',
       \<lparr>columns = [''INDEX'', ''TOTAL'', ''PAGESIZE''],
        data_entry = Some [[JInt 0, JInt 250, JInt 100]]\<rparr>)]"

text \<open>A world with one row already in the destination table.\<close>

definition stocked_world :: world where
  "stocked_world =
     example_world\<lparr>committed := [([''secid''], [JStr ''OLD''])],
                   pending := [([''secid''], [JStr ''OLD''])]\<rparr>"

section \<open>Properties of the column mapping and the row projection\<close>

lemma map_of_fold_update:
  "map_of (fold (\<lambda>d m. AList.update (f d) d m) opts m0) c =
     (case map_of (rev (map (\<lambda>d. (f d, d)) opts)) c of Some v \<Rightarrow> Some v | None \<Rightarrow> map_of m0 c)"
proof (induction opts arbitrary: m0)
  case Nil
  then show ?case by simp
next
  case (Cons d opts)
  show ?case
    by (simp add: Cons.IH update_conv' map_add_def split: option.splits)
qed

lemma resolve_loop_filter:
  "resolve_loop m ps (dbs, idxs) =
     (dbs @ map (\<lambda>(i, c). the (map_of m c)) (filter (\<lambda>(i, c). map_of m c \<noteq> None) ps),
      idxs @ map fst (filter (\<lambda>(i, c). map_of m c \<noteq> None) ps))"
proof (induction ps arbitrary: dbs idxs)
  case Nil
  then show ?case by simp
next
  case (Cons p ps)
  obtain i c where p: "p = (i, c)" by (cases p)
  show ?case
    by (cases "map_of m c") (simp_all add: p Cons.IH)
qed

lemma get_column_mapping_lookup:
  "map_of (get_column_mapping conf k) c =
     map_of (rev (map (\<lambda>d. (upper d, d)) (case table_schema conf k of None \<Rightarrow> [] | Some os \<Rightarrow> os))) c"
  by (simp add: get_column_mapping_def map_of_fold_update split: option.splits)

lemma lookup_None_iff:
  "map_of (rev (map (\<lambda>d. (upper d, d)) opts)) c = None \<longleftrightarrow> c \<notin> upper ` set opts"
  by (simp add: map_of_eq_None_iff image_image)

text \<open>
  Claim C2, as the code has it. Column resolution keeps exactly the page columns whose name,
  compared as it stands, equals the upper-cased form of a configured destination column
  name; it keeps them in page order, each with its page index, and maps each to the last
  configured option of that upper-cased form. Every other page column is dropped, and
  nothing raises.
\<close>

theorem resolve_columns_exact_upper:
  "resolve_columns (get_column_mapping conf k) api_columns =
     (let options = (case table_schema conf k of None \<Rightarrow> [] | Some os \<Rightarrow> os);
          hits = filter (\<lambda>(i, c). c \<in> upper ` set options) (enumerate 0 api_columns)
      in (map (\<lambda>(i, c). the (map_of (rev (map (\<lambda>d. (upper d, d)) options)) c)) hits, map fst hits))"
proof -
  let ?opts = "case table_schema conf k of None \<Rightarrow> [] | Some os \<Rightarrow> os"
  have f: "(\<lambda>(i, c). map_of (get_column_mapping conf k) c \<noteq> None) = (\<lambda>(i::nat, c). c \<in> upper ` set ?opts)"
    by (simp add: get_column_mapping_lookup lookup_None_iff fun_eq_iff)
  have g: "(\<lambda>(i::nat, c). the (map_of (get_column_mapping conf k) c))
            = (\<lambda>(i, c). the (map_of (rev (map (\<lambda>d. (upper d, d)) ?opts)) c))"
    by (simp add: get_column_mapping_lookup fun_eq_iff)
  show ?thesis
    unfolding resolve_columns_def resolve_loop_filter f g Let_def by simp
qed

text \<open>
  Claim C2 as stated fails: with the schema options \<open>secid\<close> and \<open>shortname\<close>, the page
  column \<open>secid\<close> matches the mapping entry \<open>SECID\<close> case-insensitively, yet the code drops
  it and keeps only \<open>SHORTNAME\<close>.
\<close>

theorem resolve_columns_case_counterexample:
  "resolve_columns
     (get_column_mapping
        \<lparr>base_url = None, default_limit = None, tables = (\<lambda>_. None),
         table_schema = (\<lambda>_. Some [''secid'', ''shortname''])\<rparr> Bonds)
     [''secid'', ''SHORTNAME'', ''EXTRA''] = ([''shortname''], [1])
   \<and> resolve_columns_spec
     (get_column_mapping
        \<lparr>base_url = None, default_limit = None, tables = (\<lambda>_. None),
         table_schema = (\<lambda>_. Some [''secid'', ''shortname''])\<rparr> Bonds)
     [''secid'', ''SHORTNAME'', ''EXTRA''] = ([''secid'', ''shortname''], [0, 1])"
  by (simp add: get_column_mapping_def upper_def upper_char_def resolve_columns_def
      resolve_columns_spec_def)

lemma build_db_row_eq:
  "build_db_row api_indices row = Inr (map (\<lambda>i. if i < length row then row ! i else JNull) api_indices)"
  by (induction api_indices) (simp_all add: py_index_def)

text \<open>
  Claim C8. Building the destination row never raises, whatever the length of the page row:
  the result has one value per resolved index, the page row's value where the index is
  inside the row and NULL where it is beyond the row's end.
\<close>

theorem build_db_row_null_fill:
  "build_db_row api_indices row =
     Inr (map (\<lambda>i. if i < length row then row ! i else JNull) api_indices)"
  by (rule build_db_row_eq)

section \<open>Properties of the page insert\<close>

lemma apply_rows_Nil [simp]: "apply_rows S [] t = t"
  by (simp add: apply_rows_def)

lemma apply_rows_Cons:
  "apply_rows S (r # rs) t = apply_rows S rs (if conflicts S r t then t else t @ [r])"
  by (simp add: apply_rows_def)

lemma apply_rows_append:
  "apply_rows S (rs @ qs) t = apply_rows S qs (apply_rows S rs t)"
  by (simp add: apply_rows_def)

lemma apply_rows_prefix: "prefix t (apply_rows S rs t)"
proof (induction rs arbitrary: t)
  case Nil
  then show ?case by simp
next
  case (Cons r rs)
  have "prefix t (if conflicts S r t then t else t @ [r])" by simp
  also have "prefix \<dots> (apply_rows S (r # rs) t)"
    unfolding apply_rows_Cons by (rule Cons.IH)
  finally show ?case .
qed

lemma conflicts_iff:
  "conflicts S r t \<longleftrightarrow> ukey S r \<noteq> None \<and> ukey S r \<in> ukey S ` set t"
  by (auto simp: conflicts_def split: option.splits)

lemma conflicts_mono: "conflicts S r t \<Longrightarrow> prefix t t' \<Longrightarrow> conflicts S r t'"
  by (auto simp: conflicts_iff dest: set_mono_prefix)

lemma apply_rows_conflicts:
  "ukey S r \<noteq> None \<Longrightarrow> r \<in> set rs \<Longrightarrow> conflicts S r (apply_rows S rs t)"
proof (induction rs arbitrary: t)
  case Nil
  then show ?case by simp
next
  case (Cons x rs)
  show ?case
  proof (cases "r = x")
    case True
    have "conflicts S r (if conflicts S r t then t else t @ [r])"
      using Cons.prems(1) by (auto simp: conflicts_iff)
    then show ?thesis
      unfolding apply_rows_Cons True [symmetric]
      using True apply_rows_prefix conflicts_mono
      by (metis apply_rows_Cons)
  next
    case False
    then have "r \<in> set rs" using Cons.prems(2) by simp
    then show ?thesis unfolding apply_rows_Cons using Cons.IH Cons.prems(1) by blast
  qed
qed

lemma apply_rows_all_conflict:
  "\<forall>r\<in>set rs. conflicts S r t \<Longrightarrow> apply_rows S rs t = t"
  by (induction rs) (simp_all add: apply_rows_Cons)

lemma execute_insert_rejected:
  "rejects S (length (stmts w)) (pending w) r \<Longrightarrow>
     execute_insert S r w = (Inl DatabaseError, w\<lparr>stmts := stmts w @ [Insert r]\<rparr>)"
  by (simp add: execute_insert_def Let_def)

lemma execute_insert_accepted:
  "\<not> rejects S (length (stmts w)) (pending w) r \<Longrightarrow>
     execute_insert S r w =
       (Inr (if conflicts S r (pending w) then 0 else 1),
        w\<lparr>stmts := stmts w @ [Insert r],
          pending := (if conflicts S r (pending w) then pending w else pending w @ [r])\<rparr>)"
  by (cases "conflicts S r (pending w)") (simp_all add: execute_insert_def Let_def)

lemma insert_rows_Cons_rejected:
  "rejects S (length (stmts w)) (pending w)
     (dbc, map (\<lambda>i. if i < length row then row ! i else JNull) idxs) \<Longrightarrow>
     insert_rows S dbc idxs (row # rws) cnt w =
       (Inl DatabaseError,
        w\<lparr>stmts := stmts w @ [Insert (dbc, map (\<lambda>i. if i < length row then row ! i else JNull) idxs)]\<rparr>)"
  by (simp add: build_db_row_eq execute_insert_rejected)

lemma insert_rows_Cons_accepted:
  "\<not> rejects S (length (stmts w)) (pending w)
     (dbc, map (\<lambda>i. if i < length row then row ! i else JNull) idxs) \<Longrightarrow>
     insert_rows S dbc idxs (row # rws) cnt w =
       insert_rows S dbc idxs rws
         (cnt + (if conflicts S (dbc, map (\<lambda>i. if i < length row then row ! i else JNull) idxs) (pending w)
                 then 0 else 1))
         (w\<lparr>stmts := stmts w @ [Insert (dbc, map (\<lambda>i. if i < length row then row ! i else JNull) idxs)],
           pending := (if conflicts S (dbc, map (\<lambda>i. if i < length row then row ! i else JNull) idxs) (pending w)
                       then pending w
                       else pending w @ [(dbc, map (\<lambda>i. if i < length row then row ! i else JNull) idxs)])\<rparr>)"
  by (simp add: build_db_row_eq execute_insert_accepted)

lemma insert_rows_frame:
  "insert_rows S dbc idxs rws cnt w = (res, w') \<Longrightarrow>
     reqs w' = reqs w \<and> conn w' = conn w \<and> committed w' = committed w \<and> affected w' = affected w
     \<and> (\<exists>ins. stmts w' = stmts w @ map Insert ins)"
proof (induction rws arbitrary: cnt w)
  case Nil
  then have "w' = w" by simp
  moreover have "stmts w = stmts w @ map Insert []" by simp
  ultimately show ?case by blast
next
  case (Cons row rws)
  let ?r = "(dbc, map (\<lambda>i. if i < length row then row ! i else JNull) idxs)"
  show ?case
  proof (cases "rejects S (length (stmts w)) (pending w) ?r")
    case True
    from Cons.prems have w': "w' = w\<lparr>stmts := stmts w @ [Insert ?r]\<rparr>"
      unfolding insert_rows_Cons_rejected [OF True] by simp
    have "stmts w' = stmts w @ map Insert [?r]" by (simp add: w')
    then have "\<exists>ins. stmts w' = stmts w @ map Insert ins" by blast
    then show ?thesis by (simp add: w')
  next
    case False
    let ?w1 = "w\<lparr>stmts := stmts w @ [Insert ?r],
        pending := (if conflicts S ?r (pending w) then pending w else pending w @ [?r])\<rparr>"
    from Cons.prems obtain c1 where step: "insert_rows S dbc idxs rws c1 ?w1 = (res, w')"
      unfolding insert_rows_Cons_accepted [OF False] by blast
    from Cons.IH [OF step] obtain ins where ih:
      "reqs w' = reqs ?w1" "conn w' = conn ?w1" "committed w' = committed ?w1"
      "affected w' = affected ?w1" "stmts w' = stmts ?w1 @ map Insert ins" by blast
    have "stmts w' = stmts w @ map Insert (?r # ins)" using ih(5) by simp
    then have "\<exists>ins. stmts w' = stmts w @ map Insert ins" by blast
    then show ?thesis using ih(1-4) by simp
  qed
qed

lemma insert_rows_ok:
  "insert_rows S dbc idxs rws cnt w = (Inr n, w') \<Longrightarrow>
     \<not> rows_rejected S (dbrows_of dbc idxs rws) (length (stmts w)) (pending w)
     \<and> pending w' = apply_rows S (dbrows_of dbc idxs rws) (pending w)
     \<and> n = cnt + (length (pending w') - length (pending w))"
proof (induction rws arbitrary: cnt w)
  case Nil
  then show ?case by simp
next
  case (Cons row rws)
  let ?r = "(dbc, map (\<lambda>i. if i < length row then row ! i else JNull) idxs)"
  have nr: "\<not> rejects S (length (stmts w)) (pending w) ?r"
  proof
    assume r: "rejects S (length (stmts w)) (pending w) ?r"
    from Cons.prems show False
      unfolding insert_rows_Cons_rejected [OF r] by simp
  qed
  let ?rc = "if conflicts S ?r (pending w) then 0 else 1 :: nat"
  let ?p1 = "if conflicts S ?r (pending w) then pending w else pending w @ [?r]"
  let ?w1 = "w\<lparr>stmts := stmts w @ [Insert ?r], pending := ?p1\<rparr>"
  from Cons.prems have step: "insert_rows S dbc idxs rws (cnt + ?rc) ?w1 = (Inr n, w')"
    unfolding insert_rows_Cons_accepted [OF nr] .
  from Cons.IH [OF step]
  have ih1: "\<not> rows_rejected S (dbrows_of dbc idxs rws) (length (stmts ?w1)) (pending ?w1)"
    and ih2: "pending w' = apply_rows S (dbrows_of dbc idxs rws) (pending ?w1)"
    and ih3: "n = cnt + ?rc + (length (pending w') - length (pending ?w1))" by blast+
  have p1: "pending ?w1 = ?p1" by simp
  have s1: "length (stmts ?w1) = Suc (length (stmts w))" by simp
  have "prefix ?p1 (pending w')" unfolding ih2 p1 by (rule apply_rows_prefix)
  then have len: "length ?p1 \<le> length (pending w')" by (rule prefix_length_le)
  have lp: "length ?p1 = length (pending w) + ?rc" by simp
  from len lp ih3 have n: "n = cnt + (length (pending w') - length (pending w))"
    unfolding p1 by linarith
  have "pending w' = apply_rows S (dbrows_of dbc idxs (row # rws)) (pending w)"
    unfolding ih2 p1 by (simp add: apply_rows_Cons)
  moreover have "\<not> rows_rejected S (dbrows_of dbc idxs (row # rws)) (length (stmts w)) (pending w)"
    using nr ih1 unfolding p1 s1 by simp
  ultimately show ?case using n by blast
qed

lemma insert_rows_err:
  "insert_rows S dbc idxs rws cnt w = (Inl e, w') \<Longrightarrow>
     rows_rejected S (dbrows_of dbc idxs rws) (length (stmts w)) (pending w)"
proof (induction rws arbitrary: cnt w)
  case Nil
  then show ?case by simp
next
  case (Cons row rws)
  let ?r = "(dbc, map (\<lambda>i. if i < length row then row ! i else JNull) idxs)"
  show ?case
  proof (cases "rejects S (length (stmts w)) (pending w) ?r")
    case True
    then show ?thesis by simp
  next
    case False
    let ?p1 = "if conflicts S ?r (pending w) then pending w else pending w @ [?r]"
    let ?w1 = "w\<lparr>stmts := stmts w @ [Insert ?r], pending := ?p1\<rparr>"
    from Cons.prems obtain c1 where "insert_rows S dbc idxs rws c1 ?w1 = (Inl e, w')"
      unfolding insert_rows_Cons_accepted [OF False] by blast
    then have "rows_rejected S (dbrows_of dbc idxs rws) (length (stmts ?w1)) (pending ?w1)"
      by (rule Cons.IH)
    then have "rows_rejected S (dbrows_of dbc idxs rws) (Suc (length (stmts w))) ?p1" by simp
    then show ?thesis by simp
  qed
qed

lemma resolve_columns_Nil_mapping: "resolve_columns [] cols = ([], [])"
  by (simp add: resolve_columns_def resolve_loop_filter)

lemma resolve_columns_Nil_cols: "resolve_columns m [] = ([], [])"
  by (simp add: resolve_columns_def)

lemma insert_data_generic_cases:
  obtains (noop) "page_dbrows (cfg E) tk data = []" "insert_data_generic E tk data w = w"
  | (run) dbc idxs where
      "page_dbrows (cfg E) tk data = dbrows_of dbc idxs (rows data)"
      "page_dbrows (cfg E) tk data \<noteq> []"
      "insert_data_generic E tk data w =
         (case insert_rows (storage E) dbc idxs (rows data) 0 w of
            (Inr n, w1) \<Rightarrow> (commit w1)\<lparr>affected := affected w1 @ [n]\<rparr>
          | (Inl e, w1) \<Rightarrow> rollback w1)"
proof -
  obtain dbc idxs where rc: "resolve_columns (get_column_mapping (cfg E) tk) (columns data) = (dbc, idxs)"
    by (cases "resolve_columns (get_column_mapping (cfg E) tk) (columns data)")
  show thesis
  proof (cases "rows data = [] \<or> dbc = []")
    case True
    have p: "page_dbrows (cfg E) tk data = []"
      using True by (auto simp: page_dbrows_def rc)
    have "insert_data_generic E tk data w = w"
      using True by (auto simp: insert_data_generic_def rc Let_def)
    with p show ?thesis by (rule noop)
  next
    case False
    then have r: "rows data \<noteq> []" and d: "dbc \<noteq> []" by simp_all
    have c: "columns data \<noteq> []"
      using rc d by (auto simp: resolve_columns_Nil_cols)
    have m: "get_column_mapping (cfg E) tk \<noteq> []"
      using rc d by (auto simp: resolve_columns_Nil_mapping)
    have p: "page_dbrows (cfg E) tk data = dbrows_of dbc idxs (rows data)"
      using d by (simp add: page_dbrows_def rc)
    have ne: "page_dbrows (cfg E) tk data \<noteq> []" using r by (simp add: p)
    have "insert_data_generic E tk data w =
         (case insert_rows (storage E) dbc idxs (rows data) 0 w of
            (Inr n, w1) \<Rightarrow> (commit w1)\<lparr>affected := affected w1 @ [n]\<rparr>
          | (Inl e, w1) \<Rightarrow> rollback w1)"
      using r c m d by (simp add: insert_data_generic_def rc Let_def)
    with p ne show ?thesis by (rule run)
  qed
qed

lemma insert_data_generic_frame:
  "reqs (insert_data_generic E tk data w) = reqs w \<and> conn (insert_data_generic E tk data w) = conn w
   \<and> (\<exists>ins. stmts (insert_data_generic E tk data w) = stmts w @ map Insert ins)"
proof (cases E tk data w rule: insert_data_generic_cases)
  case noop
  have "stmts w = stmts w @ map Insert []" by simp
  then have "\<exists>ins. stmts w = stmts w @ map Insert ins" by blast
  then show ?thesis by (simp add: noop(2))
next
  case (run dbc idxs)
  obtain res w1 where ir: "insert_rows (storage E) dbc idxs (rows data) 0 w = (res, w1)"
    by (cases "insert_rows (storage E) dbc idxs (rows data) 0 w")
  from insert_rows_frame [OF ir] obtain ins where f:
    "reqs w1 = reqs w" "conn w1 = conn w" "stmts w1 = stmts w @ map Insert ins" by blast
  have "reqs (insert_data_generic E tk data w) = reqs w1
      \<and> conn (insert_data_generic E tk data w) = conn w1
      \<and> stmts (insert_data_generic E tk data w) = stmts w1"
    by (cases res) (simp_all add: run(3) ir commit_def rollback_def)
  then show ?thesis using f by auto
qed

lemma insert_data_generic_rejected:
  assumes q: "pending w = committed w"
    and rej: "page_rejected E tk data w"
  shows "committed (insert_data_generic E tk data w) = committed w
       \<and> pending (insert_data_generic E tk data w) = committed w
       \<and> affected (insert_data_generic E tk data w) = affected w"
proof (cases E tk data w rule: insert_data_generic_cases)
  case noop
  then show ?thesis using rej by (simp add: page_rejected_def)
next
  case (run dbc idxs)
  obtain res w1 where ir: "insert_rows (storage E) dbc idxs (rows data) 0 w = (res, w1)"
    by (cases "insert_rows (storage E) dbc idxs (rows data) 0 w")
  from insert_rows_frame [OF ir] have f: "committed w1 = committed w" "affected w1 = affected w"
    by blast+
  show ?thesis
  proof (cases res)
    case (Inl e)
    then show ?thesis by (simp add: run(3) ir rollback_def f)
  next
    case (Inr n)
    with ir have "insert_rows (storage E) dbc idxs (rows data) 0 w = (Inr n, w1)" by simp
    from insert_rows_ok [OF this]
    have "\<not> rows_rejected (storage E) (dbrows_of dbc idxs (rows data)) (length (stmts w)) (pending w)"
      by blast
    with rej show ?thesis unfolding page_rejected_def run(1) by blast
  qed
qed

lemma insert_data_generic_accepted:
  assumes q: "pending w = committed w"
    and acc: "\<not> page_rejected E tk data w"
  shows "committed (insert_data_generic E tk data w) =
           apply_rows (storage E) (page_dbrows (cfg E) tk data) (committed w)
       \<and> pending (insert_data_generic E tk data w) = committed (insert_data_generic E tk data w)
       \<and> affected (insert_data_generic E tk data w) =
           (if page_dbrows (cfg E) tk data = [] then affected w
            else affected w @ [length (committed (insert_data_generic E tk data w)) - length (committed w)])"
proof (cases E tk data w rule: insert_data_generic_cases)
  case noop
  then show ?thesis using q by simp
next
  case (run dbc idxs)
  obtain res w1 where ir: "insert_rows (storage E) dbc idxs (rows data) 0 w = (res, w1)"
    by (cases "insert_rows (storage E) dbc idxs (rows data) 0 w")
  from insert_rows_frame [OF ir] have f: "committed w1 = committed w" "affected w1 = affected w"
    by blast+
  show ?thesis
  proof (cases res)
    case (Inl e)
    with ir have "insert_rows (storage E) dbc idxs (rows data) 0 w = (Inl e, w1)" by simp
    from insert_rows_err [OF this] acc show ?thesis unfolding page_rejected_def run(1) by blast
  next
    case (Inr n)
    with ir have ir': "insert_rows (storage E) dbc idxs (rows data) 0 w = (Inr n, w1)" by simp
    from insert_rows_ok [OF ir'] have
      p: "pending w1 = apply_rows (storage E) (dbrows_of dbc idxs (rows data)) (pending w)"
      and n: "n = 0 + (length (pending w1) - length (pending w))" by blast+
    have res: "insert_data_generic E tk data w = (commit w1)\<lparr>affected := affected w1 @ [n]\<rparr>"
      by (simp add: run(3) ir')
    show ?thesis
      using run(2) n by (simp add: res commit_def p q f run(1))
  qed
qed

lemma insert_data_generic_quiescent:
  assumes q: "pending w = committed w"
  shows "pending (insert_data_generic E tk data w) = committed (insert_data_generic E tk data w)
       \<and> prefix (committed w) (committed (insert_data_generic E tk data w))"
proof (cases "page_rejected E tk data w")
  case True
  from insert_data_generic_rejected [OF q True] show ?thesis by simp
next
  case False
  from insert_data_generic_accepted [OF q False] show ?thesis
    by (simp add: apply_rows_prefix)
qed

lemma load_pages_Nil [simp]: "load_pages E tk [] w = w"
  by (simp add: load_pages_def)

lemma load_pages_Cons [simp]:
  "load_pages E tk (p # ps) w = load_pages E tk ps (insert_data_generic E tk p w)"
  by (simp add: load_pages_def)


lemma load_pages_quiescent:
  "pending w = committed w \<Longrightarrow>
     pending (load_pages E tk ps w) = committed (load_pages E tk ps w)
     \<and> prefix (committed w) (committed (load_pages E tk ps w))"
proof (induction ps arbitrary: w)
  case Nil
  then show ?case by simp
next
  case (Cons p ps)
  let ?w1 = "insert_data_generic E tk p w"
  from insert_data_generic_quiescent [OF Cons.prems]
  have q1: "pending ?w1 = committed ?w1" and p1: "prefix (committed w) (committed ?w1)" by blast+
  from Cons.IH [OF q1] have "pending (load_pages E tk ps ?w1) = committed (load_pages E tk ps ?w1)"
    and "prefix (committed ?w1) (committed (load_pages E tk ps ?w1))" by blast+
  with p1 show ?case by (auto intro: prefix_order.trans)
qed

lemma load_pages_keys_present:
  "pending w = committed w \<Longrightarrow> pages_committed E tk ps w \<Longrightarrow> p \<in> set ps \<Longrightarrow>
   r \<in> set (page_dbrows (cfg E) tk p) \<Longrightarrow> ukey (storage E) r \<noteq> None \<Longrightarrow>
   conflicts (storage E) r (committed (load_pages E tk ps w))"
proof (induction ps arbitrary: w)
  case Nil
  then show ?case by simp
next
  case (Cons x ps)
  let ?w1 = "insert_data_generic E tk x w"
  from insert_data_generic_quiescent [OF Cons.prems(1)]
  have q1: "pending ?w1 = committed ?w1" by blast
  from Cons.prems(2) have acc: "\<not> page_rejected E tk x w" and rest: "pages_committed E tk ps ?w1"
    by simp_all
  show ?case
  proof (cases "p = x")
    case True
    from insert_data_generic_accepted [OF Cons.prems(1) acc]
    have "committed ?w1 = apply_rows (storage E) (page_dbrows (cfg E) tk x) (committed w)" by blast
    then have "conflicts (storage E) r (committed ?w1)"
      using apply_rows_conflicts [OF Cons.prems(5)] Cons.prems(4) True by simp
    moreover from load_pages_quiescent [OF q1]
    have "prefix (committed ?w1) (committed (load_pages E tk ps ?w1))" by blast
    ultimately show ?thesis by (simp add: conflicts_mono)
  next
    case False
    with Cons.prems(3) have "p \<in> set ps" by simp
    from Cons.IH [OF q1 rest this Cons.prems(4) Cons.prems(5)] show ?thesis by simp
  qed
qed

lemma load_pages_again:
  "pending v = committed v \<Longrightarrow>
   (\<forall>p\<in>set ps. \<forall>r\<in>set (page_dbrows (cfg E) tk p). conflicts (storage E) r (committed v)) \<Longrightarrow>
   committed (load_pages E tk ps v) = committed v
   \<and> (\<exists>k. affected (load_pages E tk ps v) = affected v @ replicate k 0)"
proof (induction ps arbitrary: v)
  case Nil
  have "affected v = affected v @ replicate 0 0" by simp
  then show ?case by (metis load_pages_Nil)
next
  case (Cons p ps)
  let ?v1 = "insert_data_generic E tk p v"
  from insert_data_generic_quiescent [OF Cons.prems(1)]
  have q1: "pending ?v1 = committed ?v1" by blast
  have step: "committed ?v1 = committed v \<and> (\<exists>j. affected ?v1 = affected v @ replicate j 0)"
  proof (cases "page_rejected E tk p v")
    case True
    from insert_data_generic_rejected [OF Cons.prems(1) True]
    have "committed ?v1 = committed v" "affected ?v1 = affected v @ replicate 0 0" by simp_all
    then show ?thesis by blast
  next
    case False
    from Cons.prems(2) have "\<forall>r\<in>set (page_dbrows (cfg E) tk p). conflicts (storage E) r (committed v)"
      by simp
    then have same: "apply_rows (storage E) (page_dbrows (cfg E) tk p) (committed v) = committed v"
      by (rule apply_rows_all_conflict)
    from insert_data_generic_accepted [OF Cons.prems(1) False]
    have c: "committed ?v1 = committed v"
      and a: "affected ?v1 = (if page_dbrows (cfg E) tk p = [] then affected v
            else affected v @ [length (committed ?v1) - length (committed v)])"
      using same by simp_all
    have "affected ?v1 = affected v @ replicate 0 0 \<or> affected ?v1 = affected v @ replicate 1 0"
      using a c by (simp split: if_splits)
    then show ?thesis using c by blast
  qed
  then obtain j where c1: "committed ?v1 = committed v" and a1: "affected ?v1 = affected v @ replicate j 0"
    by blast
  have "\<forall>p\<in>set ps. \<forall>r\<in>set (page_dbrows (cfg E) tk p). conflicts (storage E) r (committed ?v1)"
    using Cons.prems(2) c1 by simp
  from Cons.IH [OF q1 this] obtain k where
    c2: "committed (load_pages E tk ps ?v1) = committed ?v1"
    and a2: "affected (load_pages E tk ps ?v1) = affected ?v1 @ replicate k 0" by blast
  have "affected (load_pages E tk (p # ps) v) = affected v @ replicate (j + k) 0"
    using a1 a2 by (simp add: replicate_add)
  moreover have "committed (load_pages E tk (p # ps) v) = committed v" using c1 c2 by simp
  ultimately show ?case by blast
qed

text \<open>
  Claim C7 as stated fails. With a unique key on the two tracked columns, loading
  \<open>example_page\<close> a second time adds a row: the second row of the page has NULL in a key
  column, so it duplicates no row and is inserted again. The table has two rows after the
  first load and three after the second, whose \<open>Rows affected\<close> count is 1. And when the
  storage refuses the first statement of the run only, the first load of \<open>full_page\<close> is
  rolled back and the second load adds both rows.
\<close>

theorem reload_null_key_counterexample:
  "committed (load_pages example_env Bonds [example_page] example_world)
     = [([''secid'', ''isin''], [JStr ''SU26207RMFS9'', JStr ''RU000A0JS3W6'']),
        ([''secid'', ''isin''], [JStr ''SU26212RMFS9'', JNull])]
   \<and> committed (load_pages example_env Bonds [example_page]
        (load_pages example_env Bonds [example_page] example_world))
     = [([''secid'', ''isin''], [JStr ''SU26207RMFS9'', JStr ''RU000A0JS3W6'']),
        ([''secid'', ''isin''], [JStr ''SU26212RMFS9'', JNull]),
        ([''secid'', ''isin''], [JStr ''SU26212RMFS9'', JNull])]
   \<and> affected (load_pages example_env Bonds [example_page]
        (load_pages example_env Bonds [example_page] example_world)) = [2, 1]
   \<and> committed (load_pages
        (example_env\<lparr>storage := example_storage\<lparr>rejects := (\<lambda>n tbl r. n = 0)\<rparr>\<rparr>)
        Bonds [full_page] example_world) = []
   \<and> committed (load_pages
        (example_env\<lparr>storage := example_storage\<lparr>rejects := (\<lambda>n tbl r. n = 0)\<rparr>\<rparr>)
        Bonds [full_page]
        (load_pages
           (example_env\<lparr>storage := example_storage\<lparr>rejects := (\<lambda>n tbl r. n = 0)\<rparr>\<rparr>)
           Bonds [full_page] example_world))
     = [([''secid'', ''isin''], [JStr ''SU26207RMFS9'', JStr ''RU000A0JS3W6'']),
        ([''secid'', ''isin''], [JStr ''SU26212RMFS9'', JStr ''RU000A0JTK38''])]"
  by code_simp

text \<open>
  Claim C7, amended. When every destination row of the pages has a unique key (the table
  has a unique constraint and no key column of a row is NULL) and the first load met no
  storage error, loading the same pages a second time leaves the committed table as the
  first load left it, so the row count is the same, and every \<open>Rows affected\<close> count of the
  second load is 0, whether or not the second load meets storage errors.
\<close>

theorem load_pages_idempotent:
  assumes q: "pending w = committed w"
    and keyed: "\<forall>p\<in>set pages. \<forall>r\<in>set (page_dbrows (cfg E) tk p). ukey (storage E) r \<noteq> None"
    and clean: "pages_committed E tk pages w"
  shows "committed (load_pages E tk pages (load_pages E tk pages w)) = committed (load_pages E tk pages w)
       \<and> length (committed (load_pages E tk pages (load_pages E tk pages w)))
           = length (committed (load_pages E tk pages w))
       \<and> (\<exists>k. affected (load_pages E tk pages (load_pages E tk pages w))
               = affected (load_pages E tk pages w) @ replicate k 0)"
proof -
  let ?w1 = "load_pages E tk pages w"
  from load_pages_quiescent [OF q] have q1: "pending ?w1 = committed ?w1" by blast
  have pres: "\<forall>p\<in>set pages. \<forall>r\<in>set (page_dbrows (cfg E) tk p).
      conflicts (storage E) r (committed ?w1)"
    using load_pages_keys_present [OF q clean] keyed by blast
  from load_pages_again [OF q1 pres]
  have "committed (load_pages E tk pages ?w1) = committed ?w1
       \<and> (\<exists>k. affected (load_pages E tk pages ?w1) = affected ?w1 @ replicate k 0)" .
  then show ?thesis by simp
qed

theorem load_pages_idempotent_witness:
  "committed (load_pages example_env Bonds [full_page, full_page]
          (load_pages example_env Bonds [full_page, full_page] example_world))
     = committed (load_pages example_env Bonds [full_page, full_page] example_world)"
proof -
  have h1: "pending example_world = committed example_world"
    by (simp add: example_world_def)
  have h2: "\<forall>p\<in>set [full_page, full_page].
         \<forall>r\<in>set (page_dbrows (cfg example_env) Bonds p).
           ukey (storage example_env) r \<noteq> None"
    by code_simp
  have h3: "pages_committed example_env Bonds [full_page, full_page] example_world"
    by code_simp
  show ?thesis
    using load_pages_idempotent [OF h1 h2 h3] by blast
qed

section \<open>Properties of the pagination loops\<close>

lemma cursor_triple_Inr_iff:
  "cursor_triple cr = Inr (i, t, p) \<longleftrightarrow> cr = [i, JInt t, JInt p]"
  by (cases cr rule: cursor_triple.cases) auto

lemma cursor_entry_cases:
  obtains (key_error) e where "x = Inl e" | (no_entry) "x = Inr None" | (entry) cr where "x = Inr (Some cr)"
  by (cases x) auto

lemma fetch_moex_data_eq:
  "fetch_moex_data srv rq w = (srv (length (reqs w)) rq, w\<lparr>reqs := reqs w @ [rq]\<rparr>)"
  by (simp add: fetch_moex_data_def)

lemma page_loop_Suc:
  "page_loop (Suc fuel) E tk mk blk start w =
     (case api E (length (reqs w)) (mk start) of
        None \<Rightarrow> (Ok (), w\<lparr>reqs := reqs w @ [mk start]\<rparr>)
      | Some data \<Rightarrow>
          (case cursor_entry blk data of
             Inl e \<Rightarrow> (Raise e, insert_block E tk blk data (w\<lparr>reqs := reqs w @ [mk start]\<rparr>))
           | Inr None \<Rightarrow> (Ok (), insert_block E tk blk data (w\<lparr>reqs := reqs w @ [mk start]\<rparr>))
           | Inr (Some cr) \<Rightarrow>
               (case cursor_triple cr of
                  Inl e \<Rightarrow> (Raise e, insert_block E tk blk data (w\<lparr>reqs := reqs w @ [mk start]\<rparr>))
                | Inr (index, total_rows, pagesize) \<Rightarrow>
                    if start + pagesize < total_rows
                    then page_loop fuel E tk mk blk (start + pagesize)
                           (insert_block E tk blk data (w\<lparr>reqs := reqs w @ [mk start]\<rparr>))
                    else (Ok (), insert_block E tk blk data (w\<lparr>reqs := reqs w @ [mk start]\<rparr>)))))"
  apply (simp only: page_loop.simps fetch_moex_data_eq Let_def prod.case insert_block_def [symmetric])
  apply (simp add: cursor_entry_def split: option.splits list.splits)
  done

lemma get_all_securities_loop_Suc:
  "get_all_securities_loop (Suc fuel) srv limit start securities w =
     (case srv (length (reqs w)) (Request AllSecurities [(''start'', start), (''limit'', limit)]) of
        None \<Rightarrow> (Ok securities,
                 w\<lparr>reqs := reqs w @ [Request AllSecurities [(''start'', start), (''limit'', limit)]]\<rparr>)
      | Some data \<Rightarrow>
          (case map_of data ''securities'' of
             None \<Rightarrow> (Ok securities,
                 w\<lparr>reqs := reqs w @ [Request AllSecurities [(''start'', start), (''limit'', limit)]]\<rparr>)
           | Some blk \<Rightarrow>
               if rows blk = [] then (Ok securities,
                 w\<lparr>reqs := reqs w @ [Request AllSecurities [(''start'', start), (''limit'', limit)]]\<rparr>)
               else
                 (case cursor_entry ''securities'' data of
                    Inl e \<Rightarrow> (Raise e,
                      w\<lparr>reqs := reqs w @ [Request AllSecurities [(''start'', start), (''limit'', limit)]]\<rparr>)
                  | Inr None \<Rightarrow> (Ok (securities @ rows blk),
                      w\<lparr>reqs := reqs w @ [Request AllSecurities [(''start'', start), (''limit'', limit)]]\<rparr>)
                  | Inr (Some cr) \<Rightarrow>
                      (case cursor_triple cr of
                         Inl e \<Rightarrow> (Raise e,
                           w\<lparr>reqs := reqs w @ [Request AllSecurities [(''start'', start), (''limit'', limit)]]\<rparr>)
                       | Inr (index, total_rows, pagesize) \<Rightarrow>
                           if start + pagesize < total_rows
                           then get_all_securities_loop fuel srv limit (start + pagesize)
                                  (securities @ rows blk)
                                  (w\<lparr>reqs := reqs w @ [Request AllSecurities [(''start'', start), (''limit'', limit)]]\<rparr>)
                           else (Ok (securities @ rows blk),
                             w\<lparr>reqs := reqs w @ [Request AllSecurities [(''start'', start), (''limit'', limit)]]\<rparr>)))))"
  by (simp add: fetch_moex_data_eq cursor_entry_def Let_def
      split: option.splits list.splits sum.splits)

lemma insert_block_reqs: "reqs (insert_block E tk blk data w) = reqs w"
  using insert_data_generic_frame [of E tk _ w]
  by (auto simp: insert_block_def split: option.splits)


lemma page_loop_reqs_prefix:
  "prefix (reqs w) (reqs (snd (page_loop fuel E tk mk blk start w)))"
proof (induction fuel arbitrary: start w)
  case 0
  show ?case by simp
next
  case (Suc fuel)
  let ?w1 = "w\<lparr>reqs := reqs w @ [mk start]\<rparr>"
  let ?w2 = "\<lambda>data. insert_block E tk blk data ?w1"
  have base: "\<And>data. prefix (reqs w) (reqs (?w2 data))"
    by (simp add: insert_block_reqs)
  have rec: "\<And>data s. prefix (reqs w) (reqs (snd (page_loop fuel E tk mk blk s (?w2 data))))"
    using Suc.IH base prefix_order.trans by blast
  show ?case
    unfolding page_loop_Suc
    using base rec
    by (auto split: option.splits sum.splits prod.splits simp: insert_block_reqs)
qed

lemma page_loop_first_request:
  "prefix (reqs w @ [mk start]) (reqs (snd (page_loop (Suc fuel) E tk mk blk start w)))"
proof -
  let ?w1 = "w\<lparr>reqs := reqs w @ [mk start]\<rparr>"
  let ?w2 = "\<lambda>data. insert_block E tk blk data ?w1"
  have base: "\<And>data. prefix (reqs w @ [mk start]) (reqs (?w2 data))"
    by (simp add: insert_block_reqs)
  have rec: "prefix (reqs w @ [mk start]) (reqs (snd (page_loop fuel E tk mk blk s (?w2 data))))"
    for data s
  proof -
    have "prefix (reqs (?w2 data)) (reqs (snd (page_loop fuel E tk mk blk s (?w2 data))))"
      by (rule page_loop_reqs_prefix)
    then show ?thesis by (simp add: insert_block_reqs)
  qed
  show ?thesis
    unfolding page_loop_Suc
    using base rec
    by (auto split: option.splits sum.splits prod.splits simp: insert_block_reqs)
qed

lemma page_loop_terminates_aux:
  assumes bound: "\<And>n rq data cr i t p. api E n rq = Some data \<Longrightarrow>
            cursor_entry blk data = Inr (Some cr) \<Longrightarrow>
            cursor_triple cr = Inr (i, t, p) \<Longrightarrow> t \<le> T \<and> 1 \<le> p"
  shows "nat (T - start) < fuel \<Longrightarrow> fst (page_loop fuel E tk mk blk start w) \<noteq> Timeout"
proof (induction fuel arbitrary: start w)
  case 0
  then show ?case by simp
next
  case (Suc fuel)
  let ?w1 = "w\<lparr>reqs := reqs w @ [mk start]\<rparr>"
  show ?case
  proof (cases "api E (length (reqs w)) (mk start)")
    case None
    then show ?thesis unfolding page_loop_Suc by simp
  next
    case (Some data)
    note d = Some
    show ?thesis
    proof (cases "cursor_entry blk data" rule: cursor_entry_cases)
      case (key_error e)
      then show ?thesis unfolding page_loop_Suc by (simp add: d)
    next
      case no_entry
      then show ?thesis unfolding page_loop_Suc by (simp add: d)
    next
      case (entry cr)
      note c = entry
      show ?thesis
      proof (cases "cursor_triple cr")
        case (Inl e)
        then show ?thesis unfolding page_loop_Suc by (simp add: d c)
      next
        case (Inr trip)
        obtain i t p where trip: "trip = (i, t, p)" by (cases trip)
        from bound [OF d c Inr [unfolded trip]] have tT: "t \<le> T" and p1: "1 \<le> p" by simp_all
        show ?thesis
        proof (cases "start + p < t")
          case True
          have "nat (T - (start + p)) < fuel" using Suc.prems True tT p1 by linarith
          from Suc.IH [OF this] show ?thesis
            unfolding page_loop_Suc by (simp add: d c Inr trip True)
        next
          case False
          then show ?thesis unfolding page_loop_Suc by (simp add: d c Inr trip)
        qed
      qed
    qed
  qed
qed

lemma get_all_securities_loop_terminates_aux:
  assumes bound: "\<And>n rq data cr i t p. srv n rq = Some data \<Longrightarrow>
            cursor_entry ''securities'' data = Inr (Some cr) \<Longrightarrow>
            cursor_triple cr = Inr (i, t, p) \<Longrightarrow> t \<le> T \<and> 1 \<le> p"
  shows "nat (T - start) < fuel \<Longrightarrow>
           fst (get_all_securities_loop fuel srv limit start securities w) \<noteq> Timeout"
proof (induction fuel arbitrary: start securities w)
  case 0
  then show ?case by simp
next
  case (Suc fuel)
  let ?rq = "Request AllSecurities [(''start'', start), (''limit'', limit)]"
  show ?case
  proof (cases "srv (length (reqs w)) ?rq")
    case None
    then show ?thesis unfolding get_all_securities_loop_Suc by simp
  next
    case (Some data)
    note d = Some
    show ?thesis
    proof (cases "cursor_entry ''securities'' data" rule: cursor_entry_cases)
      case (key_error e)
      then show ?thesis unfolding get_all_securities_loop_Suc
        by (simp add: d split: option.splits)
    next
      case no_entry
      then show ?thesis unfolding get_all_securities_loop_Suc
        by (simp add: d split: option.splits)
    next
      case (entry cr)
      note c = entry
      show ?thesis
      proof (cases "cursor_triple cr")
        case (Inl e)
        then show ?thesis unfolding get_all_securities_loop_Suc
          by (simp add: d c split: option.splits)
      next
        case (Inr trip)
        obtain i t p where trip: "trip = (i, t, p)" by (cases trip)
        from bound [OF d c Inr [unfolded trip]] have tT: "t \<le> T" and p1: "1 \<le> p" by simp_all
        show ?thesis
        proof (cases "start + p < t")
          case True
          have "nat (T - (start + p)) < fuel" using Suc.prems True tT p1 by linarith
          from Suc.IH [OF this] show ?thesis
            unfolding get_all_securities_loop_Suc
            by (simp add: d c Inr trip True split: option.splits)
        next
          case False
          then show ?thesis unfolding get_all_securities_loop_Suc
            by (simp add: d c Inr trip split: option.splits)
        qed
      qed
    qed
  qed
qed

lemma page_loop_cursor_step:
  assumes "api E (length (reqs w)) (mk start) = Some data"
    and "cursor_entry blk data = Inr (Some [index, JInt total_rows, JInt pagesize])"
  shows "\<exists>w2. reqs w2 = reqs w @ [mk start] \<and>
           page_loop (Suc fuel) E tk mk blk start w =
             (if start + pagesize < total_rows
              then page_loop fuel E tk mk blk (start + pagesize) w2 else (Ok (), w2))"
proof -
  let ?w2 = "insert_block E tk blk data (w\<lparr>reqs := reqs w @ [mk start]\<rparr>)"
  have "reqs ?w2 = reqs w @ [mk start]" by (simp add: insert_block_reqs)
  moreover have "page_loop (Suc fuel) E tk mk blk start w =
             (if start + pagesize < total_rows
              then page_loop fuel E tk mk blk (start + pagesize) ?w2 else (Ok (), ?w2))"
    unfolding page_loop_Suc by (simp add: assms)
  ultimately show ?thesis by blast
qed

lemma page_loop_no_cursor:
  assumes "api E (length (reqs w)) (mk start) = Some data" and "cursor_entry blk data = Inr None"
  shows "\<exists>w2. reqs w2 = reqs w @ [mk start] \<and> page_loop (Suc fuel) E tk mk blk start w = (Ok (), w2)"
proof -
  let ?w2 = "insert_block E tk blk data (w\<lparr>reqs := reqs w @ [mk start]\<rparr>)"
  have "reqs ?w2 = reqs w @ [mk start]" by (simp add: insert_block_reqs)
  moreover have "page_loop (Suc fuel) E tk mk blk start w = (Ok (), ?w2)"
    unfolding page_loop_Suc by (simp add: assms)
  ultimately show ?thesis by blast
qed

lemma page_loop_key_error:
  assumes "api E (length (reqs w)) (mk start) = Some data" and "cursor_entry blk data = Inl e"
  shows "\<exists>w2. reqs w2 = reqs w @ [mk start] \<and> page_loop (Suc fuel) E tk mk blk start w = (Raise e, w2)"
proof -
  let ?w2 = "insert_block E tk blk data (w\<lparr>reqs := reqs w @ [mk start]\<rparr>)"
  have "reqs ?w2 = reqs w @ [mk start]" by (simp add: insert_block_reqs)
  moreover have "page_loop (Suc fuel) E tk mk blk start w = (Raise e, ?w2)"
    unfolding page_loop_Suc by (simp add: assms)
  ultimately show ?thesis by blast
qed

lemma get_all_securities_loop_cursor_step:
  assumes "srv (length (reqs w)) (Request AllSecurities [(''start'', start), (''limit'', limit)]) = Some data"
    and "map_of data ''securities'' = Some sblk" and "rows sblk \<noteq> []"
    and "cursor_entry ''securities'' data = Inr (Some [index, JInt total_rows, JInt pagesize])"
  shows "get_all_securities_loop (Suc fuel) srv limit start securities w =
           (if start + pagesize < total_rows
            then get_all_securities_loop fuel srv limit (start + pagesize) (securities @ rows sblk)
                   (w\<lparr>reqs := reqs w @ [Request AllSecurities [(''start'', start), (''limit'', limit)]]\<rparr>)
            else (Ok (securities @ rows sblk),
                  w\<lparr>reqs := reqs w @ [Request AllSecurities [(''start'', start), (''limit'', limit)]]\<rparr>))"
  unfolding get_all_securities_loop_Suc by (simp add: assms)

lemma get_all_securities_loop_no_cursor:
  assumes "srv (length (reqs w)) (Request AllSecurities [(''start'', start), (''limit'', limit)]) = Some data"
    and "map_of data ''securities'' = Some sblk" and "rows sblk \<noteq> []"
    and "cursor_entry ''securities'' data = Inr None"
  shows "get_all_securities_loop (Suc fuel) srv limit start securities w =
           (Ok (securities @ rows sblk),
            w\<lparr>reqs := reqs w @ [Request AllSecurities [(''start'', start), (''limit'', limit)]]\<rparr>)"
  unfolding get_all_securities_loop_Suc by (simp add: assms)

lemma get_all_securities_loop_key_error:
  assumes "srv (length (reqs w)) (Request AllSecurities [(''start'', start), (''limit'', limit)]) = Some data"
    and "map_of data ''securities'' = Some sblk" and "rows sblk \<noteq> []"
    and "cursor_entry ''securities'' data = Inl e"
  shows "get_all_securities_loop (Suc fuel) srv limit start securities w =
           (Raise e,
            w\<lparr>reqs := reqs w @ [Request AllSecurities [(''start'', start), (''limit'', limit)]]\<rparr>)"
  unfolding get_all_securities_loop_Suc by (simp add: assms)

lemma get_all_securities_loop_no_rows:
  assumes "srv (length (reqs w)) (Request AllSecurities [(''start'', start), (''limit'', limit)]) = Some data"
    and "map_of data ''securities'' = None \<or> (map_of data ''securities'' = Some sblk \<and> rows sblk = [])"
  shows "get_all_securities_loop (Suc fuel) srv limit start securities w =
           (Ok securities,
            w\<lparr>reqs := reqs w @ [Request AllSecurities [(''start'', start), (''limit'', limit)]]\<rparr>)"
  unfolding get_all_securities_loop_Suc using assms by auto

lemma page_loop_three_requests:
  "fst (page_loop 10 (example_env\<lparr>api := cursor_seq_api ''history''\<rparr>) Quotas
          (\<lambda>start. Request HistoryAll [(''date'', 0), (''start'', start), (''limit'', 100)])
          ''history'' 0 example_world) = Ok ()
   \<and> reqs (snd (page_loop 10 (example_env\<lparr>api := cursor_seq_api ''history''\<rparr>) Quotas
          (\<lambda>start. Request HistoryAll [(''date'', 0), (''start'', start), (''limit'', 100)])
          ''history'' 0 example_world))
     = [Request HistoryAll [(''date'', 0), (''start'', 0), (''limit'', 100)],
        Request HistoryAll [(''date'', 0), (''start'', 100), (''limit'', 100)],
        Request HistoryAll [(''date'', 0), (''start'', 200), (''limit'', 100)]]"
  by code_simp

lemma get_all_securities_loop_three_requests:
  "fst (get_all_securities_loop 10 (cursor_seq_api ''securities'') 100 0 [] example_world)
     = Ok [[JStr ''SU26207RMFS9'', JInt 0], [JStr ''SU26207RMFS9'', JInt 1], [JStr ''SU26207RMFS9'', JInt 2]]
   \<and> reqs (snd (get_all_securities_loop 10 (cursor_seq_api ''securities'') 100 0 [] example_world))
     = [Request AllSecurities [(''start'', 0), (''limit'', 100)],
        Request AllSecurities [(''start'', 100), (''limit'', 100)],
        Request AllSecurities [(''start'', 200), (''limit'', 100)]]"
  by code_simp

text \<open>
  Claim C5 as stated fails for the loop of \<open>get_all_securities\<close>. On a response whose
  \<open>securities\<close> block has no rows the loop ends before it reads the cursor: with the cursor
  \<open>(0, 250, 100)\<close> in every response it sends one request, although
  \<open>start + pagesize < total\<close>. The page loop of \<open>main\<close> sends three requests on the same
  responses.
\<close>

theorem get_all_securities_empty_page_counterexample:
  "cursor_entry ''securities'' empty_page_response = Inr (Some [JInt 0, JInt 250, JInt 100])
   \<and> fst (get_all_securities_loop 10 (\<lambda>n rq. Some empty_page_response) 100 0 [] example_world) = Ok []
   \<and> reqs (snd (get_all_securities_loop 10 (\<lambda>n rq. Some empty_page_response) 100 0 [] example_world))
     = [Request AllSecurities [(''start'', 0), (''limit'', 100)]]
   \<and> reqs (snd (page_loop 10 (example_env\<lparr>api := (\<lambda>n rq. Some empty_page_response)\<rparr>) Bonds
          (\<lambda>start. Request AllSecurities [(''start'', start), (''limit'', 100)])
          ''securities'' 0 example_world))
     = [Request AllSecurities [(''start'', 0), (''limit'', 100)],
        Request AllSecurities [(''start'', 100), (''limit'', 100)],
        Request AllSecurities [(''start'', 200), (''limit'', 100)]]"
  by code_simp

text \<open>
  Claim C5, amended. In each page loop of \<open>main\<close>, an iteration sends exactly one request,
  for the current \<open>start\<close>. When the response carries the cursor
  \<open>(index, total, pagesize)\<close>, the loop goes on with \<open>start + pagesize\<close> if
  \<open>start + pagesize < total\<close> and stops otherwise; when the response has no cursor entry it
  stops after that page; when the cursor block lacks the key \<open>data\<close> it raises \<open>KeyError\<close>.
  The next iteration, if there is one, begins with the request for the new \<open>start\<close>. The
  loop of \<open>get_all_securities\<close> does the same on every response whose \<open>securities\<close> block
  has rows; on a response without the block, or with a block without rows, it stops
  whatever the cursor says. For the cursor sequence \<open>(0,250,100)\<close>, \<open>(100,250,100)\<close>,
  \<open>(200,250,100)\<close>, every page having rows, both loops send exactly three requests, with
  \<open>start\<close> 0, 100 and 200, and stop by themselves.
\<close>

theorem cursor_protocol:
  "(api E (length (reqs w)) (mk start) = Some data
      \<and> cursor_entry blk data = Inr (Some [index, JInt total_rows, JInt pagesize]) \<longrightarrow>
      (\<exists>w2. reqs w2 = reqs w @ [mk start] \<and>
         page_loop (Suc fuel) E tk mk blk start w =
           (if start + pagesize < total_rows
            then page_loop fuel E tk mk blk (start + pagesize) w2 else (Ok (), w2))))
   \<and> (api E (length (reqs w)) (mk start) = Some data \<and> cursor_entry blk data = Inr None \<longrightarrow>
      (\<exists>w2. reqs w2 = reqs w @ [mk start] \<and> page_loop (Suc fuel) E tk mk blk start w = (Ok (), w2)))
   \<and> (api E (length (reqs w)) (mk start) = Some data \<and> cursor_entry blk data = Inl e \<longrightarrow>
      (\<exists>w2. reqs w2 = reqs w @ [mk start] \<and> page_loop (Suc fuel) E tk mk blk start w = (Raise e, w2)))
   \<and> prefix (reqs w @ [mk start]) (reqs (snd (page_loop (Suc fuel) E tk mk blk start w)))
   \<and> (srv (length (reqs w)) (Request AllSecurities [(''start'', start), (''limit'', limit)]) = Some data
      \<and> map_of data ''securities'' = Some sblk \<and> rows sblk \<noteq> []
      \<and> cursor_entry ''securities'' data = Inr (Some [index, JInt total_rows, JInt pagesize]) \<longrightarrow>
      get_all_securities_loop (Suc fuel) srv limit start securities w =
        (if start + pagesize < total_rows
         then get_all_securities_loop fuel srv limit (start + pagesize) (securities @ rows sblk)
                (w\<lparr>reqs := reqs w @ [Request AllSecurities [(''start'', start), (''limit'', limit)]]\<rparr>)
         else (Ok (securities @ rows sblk),
               w\<lparr>reqs := reqs w @ [Request AllSecurities [(''start'', start), (''limit'', limit)]]\<rparr>)))
   \<and> (srv (length (reqs w)) (Request AllSecurities [(''start'', start), (''limit'', limit)]) = Some data
      \<and> map_of data ''securities'' = Some sblk \<and> rows sblk \<noteq> []
      \<and> cursor_entry ''securities'' data = Inr None \<longrightarrow>
      get_all_securities_loop (Suc fuel) srv limit start securities w =
        (Ok (securities @ rows sblk),
         w\<lparr>reqs := reqs w @ [Request AllSecurities [(''start'', start), (''limit'', limit)]]\<rparr>))
   \<and> (srv (length (reqs w)) (Request AllSecurities [(''start'', start), (''limit'', limit)]) = Some data
      \<and> map_of data ''securities'' = Some sblk \<and> rows sblk \<noteq> []
      \<and> cursor_entry ''securities'' data = Inl e \<longrightarrow>
      get_all_securities_loop (Suc fuel) srv limit start securities w =
        (Raise e,
         w\<lparr>reqs := reqs w @ [Request AllSecurities [(''start'', start), (''limit'', limit)]]\<rparr>))
   \<and> (srv (length (reqs w)) (Request AllSecurities [(''start'', start), (''limit'', limit)]) = Some data
      \<and> (map_of data ''securities'' = None
          \<or> (map_of data ''securities'' = Some sblk \<and> rows sblk = [])) \<longrightarrow>
      get_all_securities_loop (Suc fuel) srv limit start securities w =
        (Ok securities,
         w\<lparr>reqs := reqs w @ [Request AllSecurities [(''start'', start), (''limit'', limit)]]\<rparr>))
   \<and> fst (page_loop 10 (example_env\<lparr>api := cursor_seq_api ''history''\<rparr>) Quotas
          (\<lambda>start. Request HistoryAll [(''date'', 0), (''start'', start), (''limit'', 100)])
          ''history'' 0 example_world) = Ok ()
   \<and> reqs (snd (page_loop 10 (example_env\<lparr>api := cursor_seq_api ''history''\<rparr>) Quotas
          (\<lambda>start. Request HistoryAll [(''date'', 0), (''start'', start), (''limit'', 100)])
          ''history'' 0 example_world))
     = [Request HistoryAll [(''date'', 0), (''start'', 0), (''limit'', 100)],
        Request HistoryAll [(''date'', 0), (''start'', 100), (''limit'', 100)],
        Request HistoryAll [(''date'', 0), (''start'', 200), (''limit'', 100)]]
   \<and> reqs (snd (get_all_securities_loop 10 (cursor_seq_api ''securities'') 100 0 [] example_world))
     = [Request AllSecurities [(''start'', 0), (''limit'', 100)],
        Request AllSecurities [(''start'', 100), (''limit'', 100)],
        Request AllSecurities [(''start'', 200), (''limit'', 100)]]"
  using page_loop_cursor_step [of E w mk start data blk index total_rows pagesize fuel tk]
    page_loop_no_cursor [of E w mk start data blk fuel tk]
    page_loop_key_error [of E w mk start data blk e fuel tk]
    page_loop_first_request [of w mk start fuel E tk blk]
    get_all_securities_loop_cursor_step [of srv w start limit data sblk index total_rows pagesize fuel securities]
    get_all_securities_loop_no_cursor [of srv w start limit data sblk fuel securities]
    get_all_securities_loop_key_error [of srv w start limit data sblk e fuel securities]
    get_all_securities_loop_no_rows [of srv w start limit data sblk fuel securities]
    page_loop_three_requests get_all_securities_loop_three_requests
  by blast

theorem cursor_protocol_witness:
  "\<exists>w2. reqs w2 = [Request HistoryAll [(''date'', 0), (''start'', 0), (''limit'', 100)]] \<and>
     page_loop (Suc 0) (example_env\<lparr>api := cursor_seq_api ''history''\<rparr>) Quotas
       (\<lambda>start. Request HistoryAll [(''date'', 0), (''start'', start), (''limit'', 100)])
       ''history'' 0 example_world
     = page_loop 0 (example_env\<lparr>api := cursor_seq_api ''history''\<rparr>) Quotas
       (\<lambda>start. Request HistoryAll [(''date'', 0), (''start'', start), (''limit'', 100)])
       ''history'' 100 w2"
proof -
  let ?E = "example_env\<lparr>api := cursor_seq_api ''history''\<rparr>"
  let ?mk = "\<lambda>start. Request HistoryAll [(''date'', 0), (''start'', start), (''limit'', 100)]"
  let ?data = "[(''history'',
            \<lparr>columns = [''SECID''], data_entry = Some [[JStr ''SU26207RMFS9'', JInt 0]]\<rparr>),
           (''history.cursor'',
            \<lparr>columns = [''INDEX'', ''TOTAL'', ''PAGESIZE''],
             data_entry = Some [[JInt 0, JInt 250, JInt 100]]\<rparr>)]"
  have h1: "api ?E (length (reqs example_world)) (?mk 0) = Some ?data"
    by (simp add: cursor_seq_api_def example_world_def)
  have h2: "cursor_entry ''history'' ?data = Inr (Some [JInt 0, JInt 250, JInt 100])"
    by (simp add: cursor_entry_def)
  have r: "reqs example_world = []" by (simp add: example_world_def)
  from cursor_protocol [of ?E example_world ?mk 0 ?data "''history''" "JInt 0" 250 100 0 Quotas]
    h1 h2
  have "\<exists>w2. reqs w2 = reqs example_world @ [?mk 0] \<and>
         page_loop (Suc 0) ?E Quotas ?mk ''history'' 0 example_world =
           (if (0::int) + 100 < 250
            then page_loop 0 ?E Quotas ?mk ''history'' (0 + 100) w2 else (Ok (), w2))"
    by blast
  then show ?thesis by (simp add: r)
qed

text \<open>
  Claim C10. When the responses the server can give are finitely many (they all come from
  a list \<open>rs\<close>, in any order and any number of times) and every cursor triple among them
  has \<open>pagesize \<ge> 1\<close>, each pagination loop ends: with enough fuel the page loop of
  \<open>main\<close> and the loop of \<open>get_all_securities\<close> return or raise.
\<close>

theorem pagination_loops_terminate:
  assumes fin: "\<forall>n rq. api E n rq \<in> set rs"
    and ps: "\<forall>r\<in>set rs. \<forall>data b index t p.
               r = Some data \<and> cursor_entry b data = Inr (Some [index, JInt t, JInt p]) \<longrightarrow> 1 \<le> p"
  shows "(\<exists>N. \<forall>fuel\<ge>N. fst (page_loop fuel E tk mk blk start w) \<noteq> Timeout)
       \<and> (\<exists>N. \<forall>fuel\<ge>N. fst (get_all_securities_loop fuel (api E) limit start securities w) \<noteq> Timeout)"
proof -
  define f where "f b r = (case r of None \<Rightarrow> 0 | Some data \<Rightarrow>
      (case cursor_entry b data of Inl e \<Rightarrow> 0 | Inr None \<Rightarrow> 0 | Inr (Some cr) \<Rightarrow>
        (case cursor_triple cr of Inl e \<Rightarrow> 0 | Inr (i, t, p) \<Rightarrow> t)))" for b and r :: "response option"
  define T where "T b = Max (insert 0 (f b ` set rs))" for b
  have bound: "t \<le> T b \<and> 1 \<le> p"
    if d: "api E n rq = Some data" and c: "cursor_entry b data = Inr (Some cr)"
      and tr: "cursor_triple cr = Inr (i, t, p)" for n rq data b cr i t p
  proof -
    from fin d have mem: "Some data \<in> set rs" by metis
    have "f b (Some data) = t" by (simp add: f_def c tr)
    with mem have "t \<in> insert 0 (f b ` set rs)" by force
    then have "t \<le> T b" unfolding T_def by (intro Max_ge) auto
    moreover from tr have "cr = [i, JInt t, JInt p]" by (simp add: cursor_triple_Inr_iff)
    with ps mem c have "1 \<le> p" by blast
    ultimately show ?thesis by simp
  qed
  have "\<forall>fuel\<ge>Suc (nat (T blk - start)). fst (page_loop fuel E tk mk blk start w) \<noteq> Timeout"
    using page_loop_terminates_aux [of E blk "T blk" start _ tk mk w] bound by auto
  moreover
  have "\<forall>fuel\<ge>Suc (nat (T ''securities'' - start)).
          fst (get_all_securities_loop fuel (api E) limit start securities w) \<noteq> Timeout"
    using get_all_securities_loop_terminates_aux
            [of "api E" "T ''securities''" start _ limit securities w] bound by auto
  ultimately show ?thesis by blast
qed

theorem pagination_loops_terminate_witness:
  "(\<exists>N. fst (page_loop N (example_env\<lparr>api := (\<lambda>n rq. cursor_seq_api ''history'' 0 rq)\<rparr>) Quotas
              (\<lambda>start. Request HistoryAll [(''date'', 0), (''start'', start), (''limit'', 100)])
              ''history'' 0 example_world) \<noteq> Timeout)
   \<and> (\<exists>N. fst (get_all_securities_loop N
              (api (example_env\<lparr>api := (\<lambda>n rq. cursor_seq_api ''history'' 0 rq)\<rparr>)) 100 0 []
              example_world) \<noteq> Timeout)"
proof -
  let ?E = "example_env\<lparr>api := (\<lambda>n rq. cursor_seq_api ''history'' 0 rq)\<rparr>"
  let ?rs = "[cursor_seq_api ''history'' 0 (Request HistoryAll [])]"
  have h1: "\<forall>n rq. api ?E n rq \<in> set ?rs"
    by (simp add: cursor_seq_api_def)
  have h2: "\<forall>r\<in>set ?rs. \<forall>data b index t p.
               r = Some data \<and> cursor_entry b data = Inr (Some [index, JInt t, JInt p]) \<longrightarrow> 1 \<le> p"
    by (auto simp: cursor_seq_api_def cursor_entry_def split: if_splits)
  from pagination_loops_terminate [OF h1 h2] show ?thesis by blast
qed

section \<open>Runs in mode \<open>update\<close>\<close>

lemma inserts_only_refl: "pending w = committed w \<Longrightarrow> inserts_only w w"
proof -
  assume "pending w = committed w"
  moreover have "stmts w = stmts w @ map Insert []" by simp
  ultimately show ?thesis unfolding inserts_only_def by blast
qed

lemma inserts_only_trans:
  assumes "inserts_only a b" "inserts_only b c"
  shows "inserts_only a c"
proof -
  from assms obtain i1 i2 where s: "stmts b = stmts a @ map Insert i1" "stmts c = stmts b @ map Insert i2"
    unfolding inserts_only_def by blast
  then have "stmts c = stmts a @ map Insert (i1 @ i2)" by simp
  then have "\<exists>ins. stmts c = stmts a @ map Insert ins" by blast
  moreover have "prefix (committed a) (committed c)"
    using assms unfolding inserts_only_def by (meson prefix_order.trans)
  moreover have "pending c = committed c" using assms(2) unfolding inserts_only_def by blast
  ultimately show ?thesis unfolding inserts_only_def by blast
qed

lemma inserts_only_quiescent: "inserts_only w w' \<Longrightarrow> pending w' = committed w'"
  unfolding inserts_only_def by blast

lemma inserts_only_reqs:
  "inserts_only w w' \<Longrightarrow> inserts_only w (w'\<lparr>reqs := r\<rparr>)"
  unfolding inserts_only_def by simp

lemma inserts_only_insert_data_generic:
  assumes q: "pending w = committed w"
  shows "inserts_only w (insert_data_generic E tk data w)"
  using insert_data_generic_quiescent [OF q, of E tk data] insert_data_generic_frame [of E tk data w]
  unfolding inserts_only_def by blast

lemma inserts_only_insert_block:
  assumes q: "pending w = committed w"
  shows "inserts_only w (insert_block E tk blk data w)"
  using inserts_only_insert_data_generic [OF q] inserts_only_refl [OF q]
  by (simp add: insert_block_def split: option.splits)

lemma inserts_only_page_loop:
  "pending w = committed w \<Longrightarrow> inserts_only w (snd (page_loop fuel E tk mk blk start w))"
proof (induction fuel arbitrary: start w)
  case 0
  then show ?case by (simp add: inserts_only_refl)
next
  case (Suc fuel)
  let ?w1 = "w\<lparr>reqs := reqs w @ [mk start]\<rparr>"
  have q1: "pending ?w1 = committed ?w1" using Suc.prems by simp
  have a: "inserts_only w ?w1" using inserts_only_reqs [OF inserts_only_refl [OF Suc.prems]] by simp
  have b: "inserts_only w (insert_block E tk blk data ?w1)" for data
    using inserts_only_trans [OF a inserts_only_insert_block [OF q1]] .
  have c: "inserts_only w (snd (page_loop fuel E tk mk blk s (insert_block E tk blk data ?w1)))" for data s
    using inserts_only_trans [OF b Suc.IH [OF inserts_only_quiescent [OF b]]] .
  show ?case
    unfolding page_loop_Suc using a b c
    by (auto split: option.splits sum.splits prod.splits)
qed

lemma inserts_only_fetch_and_insert:
  assumes q: "pending w = committed w"
  shows "inserts_only w (snd (fetch_and_insert E tk rq blk w))"
proof -
  let ?w1 = "w\<lparr>reqs := reqs w @ [rq]\<rparr>"
  have q1: "pending ?w1 = committed ?w1" using q by simp
  have a: "inserts_only w ?w1" using inserts_only_reqs [OF inserts_only_refl [OF q]] by simp
  have b: "inserts_only w (insert_data_generic E tk b ?w1)" for b
    using inserts_only_trans [OF a inserts_only_insert_data_generic [OF q1]] .
  show ?thesis
    using a b by (auto simp: fetch_and_insert_def fetch_moex_data_eq split: option.splits)
qed

lemma inserts_only_for_each:
  assumes body: "\<And>x w. pending w = committed w \<Longrightarrow> inserts_only w (snd (body x w))"
  shows "pending w = committed w \<Longrightarrow> inserts_only w (snd (for_each body xs w))"
proof (induction xs arbitrary: w)
  case Nil
  then show ?case by (simp add: inserts_only_refl)
next
  case (Cons x xs)
  obtain r w1 where b: "body x w = (r, w1)" by (cases "body x w")
  from body [OF Cons.prems, of x] b have s1: "inserts_only w w1" by simp
  show ?case
  proof (cases r)
    case (Ok u)
    from Cons.IH [OF inserts_only_quiescent [OF s1]]
    have "inserts_only w1 (snd (for_each body xs w1))" .
    from inserts_only_trans [OF s1 this] show ?thesis by (simp add: b Ok)
  next
    case (Raise e)
    then show ?thesis using s1 by (simp add: b)
  next
    case Timeout
    then show ?thesis using s1 by (simp add: b)
  qed
qed

lemma get_all_securities_loop_world:
  "\<exists>r. snd (get_all_securities_loop fuel srv limit start securities w) = w\<lparr>reqs := r\<rparr>"
proof (induction fuel arbitrary: start securities w)
  case 0
  have "w = w\<lparr>reqs := reqs w\<rparr>" by simp
  then show ?case by (metis get_all_securities_loop.simps(1) snd_conv)
next
  case (Suc fuel)
  let ?w1 = "w\<lparr>reqs := reqs w @ [Request AllSecurities [(''start'', start), (''limit'', limit)]]\<rparr>"
  have a: "\<exists>r. ?w1 = w\<lparr>reqs := r\<rparr>" by blast
  have b: "\<exists>r. snd (get_all_securities_loop fuel srv limit s secs ?w1) = w\<lparr>reqs := r\<rparr>" for s secs
  proof -
    from Suc.IH [of s secs ?w1] obtain r where
      "snd (get_all_securities_loop fuel srv limit s secs ?w1) = ?w1\<lparr>reqs := r\<rparr>" by blast
    then have "snd (get_all_securities_loop fuel srv limit s secs ?w1) = w\<lparr>reqs := r\<rparr>" by simp
    then show ?thesis by blast
  qed
  show ?case
    unfolding get_all_securities_loop_Suc using a b
    by (auto split: option.splits sum.splits prod.splits)
qed

lemma get_all_securities_world:
  "\<exists>r. snd (get_all_securities fuel srv c w) = w\<lparr>reqs := r\<rparr>"
proof (cases "base_url c")
  case None
  have "w = w\<lparr>reqs := reqs w\<rparr>" by simp
  then show ?thesis by (metis None get_all_securities_def option.simps(4) snd_conv)
next
  case (Some url)
  then show ?thesis
    using get_all_securities_loop_world by (simp add: get_all_securities_def)
qed

lemma get_isin_list_world:
  "\<exists>r. snd (get_isin_list fuel srv c a w) = w\<lparr>reqs := r\<rparr>"
proof (cases "truthy (isin a)")
  case True
  have "w = w\<lparr>reqs := reqs w\<rparr>" by simp
  then have "\<exists>r. w = w\<lparr>reqs := r\<rparr>" by blast
  then show ?thesis using True by (simp add: get_isin_list_def)
next
  case False
  obtain res w1 where g: "get_all_securities fuel srv c w = (res, w1)"
    by (cases "get_all_securities fuel srv c w")
  from get_all_securities_world [of fuel srv c w] g have "\<exists>r. w1 = w\<lparr>reqs := r\<rparr>" by simp
  then show ?thesis
    using False by (cases res) (simp_all add: get_isin_list_def g str_in_rows_def)
qed

lemma bonds_all_world:
  "\<exists>r. snd (bonds_all fuel E w) = w\<lparr>reqs := r\<rparr>"
proof -
  obtain res w1 where g: "get_all_securities fuel (api E) (cfg E) w = (res, w1)"
    by (cases "get_all_securities fuel (api E) (cfg E) w")
  from get_all_securities_world [of fuel "api E" "cfg E" w] g have "\<exists>r. w1 = w\<lparr>reqs := r\<rparr>" by simp
  then show ?thesis
    by (cases res) (simp_all add: bonds_all_def g str_in_rows_def)
qed

lemma inserts_only_reqs_update:
  "pending w = committed w \<Longrightarrow> inserts_only w (w\<lparr>reqs := r\<rparr>)"
  using inserts_only_reqs [OF inserts_only_refl] by blast

lemma inserts_only_bonds_all:
  "pending w = committed w \<Longrightarrow> inserts_only w (snd (bonds_all fuel E w))"
  using bonds_all_world [of fuel E w] inserts_only_reqs_update by metis

lemma inserts_only_quotas_date:
  "pending w = committed w \<Longrightarrow> inserts_only w (snd (quotas_date fuel E a isin_list limit date w))"
  unfolding quotas_date_def
  by (simp add: inserts_only_page_loop inserts_only_for_each inserts_only_fetch_and_insert)

lemma inserts_only_main_body:
  assumes q: "pending w = committed w" and m: "mode a = Update"
  shows "inserts_only w (snd (main_body fuel E a isin_list limit w))"
proof (cases "table a")
  case Bonds
  then show ?thesis
    using q m
    by (simp add: main_body_def inserts_only_bonds_all inserts_only_for_each
        inserts_only_fetch_and_insert)
next
  case Quotas
  then show ?thesis
    using q m by (simp add: main_body_def inserts_only_for_each inserts_only_quotas_date)
next
  case Coupons
  then show ?thesis
    using q m by (simp add: main_body_def inserts_only_for_each inserts_only_page_loop)
next
  case Amortizations
  then show ?thesis
    using q m by (simp add: main_body_def inserts_only_for_each inserts_only_page_loop)
next
  case Offers
  then show ?thesis
    using q m by (simp add: main_body_def inserts_only_for_each inserts_only_page_loop)
qed

lemma main_world_cases:
  assumes g: "get_isin_list fuel (api E) (cfg E) a w = (res, w1)"
  shows "snd (main fuel E a w) = w1
       \<or> snd (main fuel E a w) = w1\<lparr>conn := Opened, pending := committed w1\<rparr>
       \<or> (\<exists>il lim. snd (main fuel E a w) =
             snd (main_body fuel E a il lim (w1\<lparr>conn := Opened, pending := committed w1\<rparr>)))
       \<or> (\<exists>il lim. snd (main fuel E a w) =
             conn_close (snd (main_body fuel E a il lim (w1\<lparr>conn := Opened, pending := committed w1\<rparr>))))"
proof (cases res)
  case (Raise e)
  then show ?thesis by (simp add: main_def g)
next
  case Timeout
  then show ?thesis by (simp add: main_def g)
next
  case (Ok il)
  let ?w2 = "w1\<lparr>conn := Opened, pending := committed w1\<rparr>"
  let ?lim = "case default_limit (cfg E) of None \<Rightarrow> 100 | Some l \<Rightarrow> l"
  obtain r3 w3 where mb: "main_body fuel E a il ?lim ?w2 = (r3, w3)"
    by (cases "main_body fuel E a il ?lim ?w2")
  have w3: "w3 = snd (main_body fuel E a il ?lim ?w2)" by (simp add: mb)
  have "snd (main fuel E a w) = w1 \<or> snd (main fuel E a w) = ?w2
      \<or> snd (main fuel E a w) = w3 \<or> snd (main fuel E a w) = conn_close w3"
    by (cases r3)
       (auto simp: main_def g Ok get_db_connection_def mb split: option.splits)
  then show ?thesis unfolding w3 by blast
qed

text \<open>
  Claim C9. In mode \<open>update\<close> no TRUNCATE is ever executed: the statements of the run are
  INSERT statements only, and the rows committed before the run are still there, in
  place, after it. This holds for every amount of fuel, hence also at every moment at
  which a run of the model is cut short.
\<close>

theorem update_never_truncates:
  assumes m: "mode a = Update"
  shows "(\<exists>ins. stmts (snd (main fuel E a w)) = stmts w @ map Insert ins)
       \<and> prefix (committed w) (committed (snd (main fuel E a w)))"
proof -
  obtain res w1 where g: "get_isin_list fuel (api E) (cfg E) a w = (res, w1)"
    by (cases "get_isin_list fuel (api E) (cfg E) a w")
  from get_isin_list_world [of fuel "api E" "cfg E" a w] g obtain r where w1: "w1 = w\<lparr>reqs := r\<rparr>"
    by auto
  let ?w2 = "w1\<lparr>conn := Opened, pending := committed w1\<rparr>"
  let ?P = "\<lambda>w'. (\<exists>ins. stmts w' = stmts w @ map Insert ins) \<and> prefix (committed w) (committed w')"
  have e: "stmts w = stmts w @ map Insert []" by simp
  have p1: "?P w1" using e unfolding w1 by auto
  have p2: "?P ?w2" using e unfolding w1 by auto
  have q2: "pending ?w2 = committed ?w2" by simp
  have p3: "?P w3 \<and> ?P (conn_close w3)" if "inserts_only ?w2 w3" for w3
  proof -
    from that obtain ins where "stmts w3 = stmts ?w2 @ map Insert ins"
      and "prefix (committed ?w2) (committed w3)" unfolding inserts_only_def by blast
    then have "stmts w3 = stmts w @ map Insert ins" and "prefix (committed w) (committed w3)"
      unfolding w1 by simp_all
    then show ?thesis by (auto simp: conn_close_def)
  qed
  have p34: "?P (snd (main_body fuel E a il lim ?w2)) \<and> ?P (conn_close (snd (main_body fuel E a il lim ?w2)))"
    for il lim
    using p3 [OF inserts_only_main_body [OF q2 m]] .
  from main_world_cases [OF g] p1 p2 p34 show ?thesis by metis
qed

theorem update_never_truncates_witness:
  "mode \<lparr>table = Bonds, isin = Some ''RU000A0JS3W6'', mode = Update, start_date = 0, end_date = 0\<rparr> = Update
   \<and> (\<exists>ins. stmts (snd (main 5 (example_env\<lparr>api := example_api\<rparr>)
          \<lparr>table = Bonds, isin = Some ''RU000A0JS3W6'', mode = Update, start_date = 0, end_date = 0\<rparr>
          stocked_world)) = stmts stocked_world @ map Insert ins)
   \<and> prefix (committed stocked_world) (committed (snd (main 5 (example_env\<lparr>api := example_api\<rparr>)
          \<lparr>table = Bonds, isin = Some ''RU000A0JS3W6'', mode = Update, start_date = 0, end_date = 0\<rparr>
          stocked_world)))"
proof -
  have h: "mode \<lparr>table = Bonds, isin = Some ''RU000A0JS3W6'', mode = Update, start_date = 0, end_date = 0\<rparr> = Update"
    by simp
  from update_never_truncates [OF h] h show ?thesis by blast
qed

section \<open>Storage errors and the course of a run\<close>




















section \<open>Runs of \<open>main\<close> at concrete inputs\<close>

text \<open>
  Claim C1, at a failing input: mode \<open>clear\<close> without \<open>--isin\<close>, on a table that holds one
  row. \<open>get_isin_list\<close> runs before the mode is looked at and fetches the securities list
  (one request); the list of ISINs it returns is empty, so \<open>main\<close> returns at
  \<open>No ISINs found or specified\<close>: no connection is opened, no TRUNCATE is executed and the
  row is still in the table.
\<close>

theorem clear_without_isin_fetches_and_keeps_table:
  "main 5 (example_env\<lparr>api := example_api\<rparr>)
     \<lparr>table = Bonds, isin = None, mode = Clear, start_date = 0, end_date = 0\<rparr> stocked_world
   = (Ok (),
      \<lparr>reqs = [Request AllSecurities [(''start'', 0), (''limit'', 100)]], stmts = [],
       committed = [([''secid''], [JStr ''OLD''])], pending = [([''secid''], [JStr ''OLD''])],
       conn = NotOpened, affected = []\<rparr>)"
  by code_simp

text \<open>
  Claim C4, at a failing input: the \<open>[TABLES]\<close> section has no option for the table.
  The connection is opened, \<open>config.get('TABLES', args.table)\<close> raises before the \<open>try\<close>
  block is entered, and the run ends with the connection still open.
\<close>

theorem missing_table_option_leaves_connection_open:
  "main 5 (example_env\<lparr>api := example_api, cfg := example_cfg\<lparr>tables := (\<lambda>k. None)\<rparr>\<rparr>)
     \<lparr>table = Bonds, isin = Some ''RU000A0JS3W6'', mode = Update, start_date = 0, end_date = 0\<rparr>
     example_world
   = (Raise NoOptionError,
      \<lparr>reqs = [], stmts = [], committed = [], pending = [], conn = Opened, affected = []\<rparr>)"
  by code_simp


end
